(* ===== verification/Prelude.thy ===== *)
theory Prelude
  imports Main "HOL-Library.Word"
begin

text \<open>
  Shared vocabulary of the access-controller development (\<open>src/src/main.cpp\<close>):
  the types of the model (bytes, the EEPROM as a byte store, identifiers as
  strings), the C conversions between \<open>char\<close> and \<open>uint8_t\<close>, sequences of
  EEPROM writes, and the generic lemmas on lists, words and writes that the
  component theories share.  The collection \<open>ee_simps\<close> gathers the rules
  that read a value back out of a sequence of EEPROM writes.
\<close>

named_theorems ee_simps "rules that read EEPROM bytes back after writes"

type_synonym byte = "8 word"

text \<open>
  The EEPROM is a byte-addressed store: \<open>EEPROM.read(a)\<close> is \<open>e a\<close>,
  \<open>EEPROM.write(a, v)\<close> is the update \<open>e(a := v)\<close>.  An identifier is an
  Arduino \<open>String\<close>, a list of 8-bit characters.
\<close>

type_synonym eeprom = "nat \<Rightarrow> byte"
type_synonym uid = string

text \<open>The lines the sketch prints on the serial console, one constructor per
  \<open>Serial.print\<close> site (the Turkish text itself is not modelled).\<close>

datatype diag =
    MsgReaderMissing
  | MsgReady
  | MsgCountLoaded nat
  | MsgCardRead uid
  | MsgMasterCard
  | MsgNewCard uid
  | MsgAccessGranted
  | MsgAccessDenied
  | MsgEepromReset
  | MsgCardAdded
  | MsgAlreadyAdded
  | MsgLimitExceeded
  | MsgPredefinedAdded uid

subsection \<open>Characters and bytes\<close>

text \<open>\<open>EEPROM.write(a, UID[i])\<close> stores a \<open>char\<close> as a \<open>uint8_t\<close>;
  \<open>char(EEPROM.read(a))\<close> turns the byte back into a \<open>char\<close>.\<close>

definition byte_of_char :: "char \<Rightarrow> byte" where
  "byte_of_char c = word_of_nat (of_char c)"

definition char_of_byte :: "byte \<Rightarrow> char" where
  "char_of_byte b = char_of (unat b)"

subsection \<open>Sequences of EEPROM writes\<close>

text \<open>A sequence of \<open>EEPROM.write\<close> calls, applied in program order.\<close>

definition ee_writes :: "(nat \<times> byte) list \<Rightarrow> eeprom \<Rightarrow> eeprom" where
  "ee_writes ws e = fold (\<lambda>(a, v) e. e(a := v)) ws e"

subsection \<open>Lemmas on characters and bytes\<close>

lemma char_of_byte_of_char [simp]: "char_of_byte (byte_of_char c) = c"
proof -
  have "unat (word_of_nat (of_char c) :: byte) = of_char c mod 256"
    by (simp add: unat_of_nat)
  then show ?thesis
    by (simp add: char_of_byte_def byte_of_char_def)
qed

lemma byte_of_char_inj [simp]: "byte_of_char c = byte_of_char d \<longleftrightarrow> c = d"
  by (metis char_of_byte_of_char)

lemma char_of_byte_zero [simp]: "char_of_byte 0 = CHR 0x00"
  by (simp add: char_of_byte_def char_of_def)

lemma unat_of_nat_byte [simp]: "n < 256 \<Longrightarrow> unat (word_of_nat n :: byte) = n"
  by (simp add: unat_of_nat)

subsection \<open>Lemmas on EEPROM writes\<close>

lemma ee_writes_Nil [simp, ee_simps]: "ee_writes [] e = e"
  by (simp add: ee_writes_def)

lemma ee_writes_Cons [simp, ee_simps]:
  "ee_writes ((a, v) # ws) e = ee_writes ws (e(a := v))"
  by (simp add: ee_writes_def)

lemma ee_writes_append [ee_simps]:
  "ee_writes (ws @ vs) e = ee_writes vs (ee_writes ws e)"
  by (simp add: ee_writes_def)

lemma ee_writes_other [ee_simps]:
  "a \<notin> fst ` set ws \<Longrightarrow> ee_writes ws e a = e a"
  by (induction ws arbitrary: e) auto

lemma ee_writes_last [ee_simps]:
  "a \<notin> fst ` set ws \<Longrightarrow> ee_writes (ws @ [(a, v)]) e a = v"
  by (simp add: ee_writes_append)

lemma ee_writes_prefix_other:
  "a \<notin> fst ` set ws \<Longrightarrow> ee_writes (take k ws) e a = e a"
  by (rule ee_writes_other) (meson image_mono in_mono set_take_subset)

lemma ee_writes_member [ee_simps]:
  "distinct (map fst ws) \<Longrightarrow> (a, v) \<in> set ws \<Longrightarrow> ee_writes ws e a = v"
proof (induction ws arbitrary: e)
  case Nil
  then show ?case by simp
next
  case (Cons w ws)
  obtain b x where w: "w = (b, x)" by fastforce
  show ?case
  proof (cases "(a, v) \<in> set ws")
    case True
    with Cons w show ?thesis by auto
  next
    case False
    with Cons.prems w have "a = b" "v = x" "a \<notin> fst ` set ws" by auto
    with w show ?thesis by (simp add: ee_writes_other)
  qed
qed

subsection \<open>Lemmas on lists\<close>

lemma takeWhile_append_stop:
  "\<forall>x \<in> set xs. P x \<Longrightarrow> \<not> P y \<Longrightarrow> takeWhile P (xs @ y # ys) = xs"
  by (induction xs) auto

lemma ex_less_snoc:
  "(\<exists>k < length (xs @ [x]). P k) \<longleftrightarrow> (\<exists>k < length xs. P k) \<or> P (length xs)"
  by (auto simp: less_Suc_eq)

lemma takeWhile_all: "\<forall>x \<in> set xs. P x \<Longrightarrow> takeWhile P xs = xs"
  by (induction xs) auto

end
