(* ===== verification/Codec.thy ===== *)
theory Codec
  imports Prelude
begin

text \<open>
  The identifier codec of \<open>loop()\<close> (\<open>src/src/main.cpp\<close>, lines 113--118):
  each byte of the UID read from the PN532 is appended to \<open>content\<close> as
  \<open>String(uid[i], HEX)\<close> (the AVR \<open>utoa\<close> rendering: lower-case hex digits,
  no leading zero), and the whole string is then upper-cased with
  \<open>content.toUpperCase()\<close>.  The theory proves the alphabet and the length
  bounds of the result, the round trip through a two-digit decoder for bytes
  of at least \<open>0x10\<close>, and the family of collisions the missing zero padding
  causes.
\<close>

subsection \<open>Definitions\<close>

text \<open>One hexadecimal digit as \<open>utoa\<close> writes it (\<open>'0'..'9'\<close>, \<open>'a'..'f'\<close>).\<close>

definition hex_char :: "nat \<Rightarrow> char" where
  "hex_char d = ''0123456789abcdef'' ! d"

text \<open>\<open>String(v, HEX)\<close>: the digits of \<open>v\<close> in base 16, most significant first.\<close>

fun utoa_hex :: "nat \<Rightarrow> string" where
  "utoa_hex n = (if n < 16 then [hex_char n] else utoa_hex (n div 16) @ [hex_char (n mod 16)])"

declare utoa_hex.simps [simp del]

text \<open>\<open>String::toUpperCase\<close>: the C locale's \<open>toupper\<close> on every character,
  which maps \<open>'a'..'z'\<close> to \<open>'A'..'Z'\<close> and leaves every other byte alone.\<close>

definition to_upper_char :: "char \<Rightarrow> char" where
  "to_upper_char c =
     (case map_of (zip ''abcdefghijklmnopqrstuvwxyz'' ''ABCDEFGHIJKLMNOPQRSTUVWXYZ'') c of
        Some u \<Rightarrow> u | None \<Rightarrow> c)"

definition toUpperCase :: "string \<Rightarrow> string" where
  "toUpperCase s = map to_upper_char s"

text \<open>The loop \<open>for (i = 0; i < uidLength; i++) content += String(uid[i], HEX);\<close>
  over the \<open>uidLength\<close> bytes the reader delivered, with \<open>content\<close> the accumulator.\<close>

fun content_loop :: "byte list \<Rightarrow> string \<Rightarrow> string" where
  "content_loop [] content = content"
| "content_loop (b # bs) content = content_loop bs (content @ utoa_hex (unat b))"

text \<open>Lines 113--118: the canonical identifier of a raw UID.\<close>

definition encode_uid :: "byte list \<Rightarrow> uid" where
  "encode_uid bs = toUpperCase (content_loop bs [])"

subsection \<open>Reference decoder\<close>

text \<open>The value of an upper-case hex digit, and a decoder that reads two digits per
  byte.  It is the inverse the canonical form would have if every byte were written
  with two digits; it is not part of the program.\<close>

definition hex_val :: "char \<Rightarrow> nat option" where
  "hex_val c = map_of (zip ''0123456789ABCDEF'' [0..<16]) c"

fun decode_hex :: "string \<Rightarrow> byte list option" where
  "decode_hex [] = Some []"
| "decode_hex [c] = None"
| "decode_hex (c # d # cs) =
     (case (hex_val c, hex_val d, decode_hex cs) of
        (Some h, Some l, Some bs) \<Rightarrow> Some (word_of_nat (16 * h + l) # bs)
      | _ \<Rightarrow> None)"

definition upper_hex_digits :: "char set" where
  "upper_hex_digits = set ''0123456789ABCDEF''"

subsection \<open>Lemmas\<close>

lemma content_loop_eq: "content_loop bs acc = acc @ concat (map (\<lambda>b. utoa_hex (unat b)) bs)"
  by (induction bs arbitrary: acc) auto

lemma encode_uid_concat:
  "encode_uid bs = concat (map (\<lambda>b. toUpperCase (utoa_hex (unat b))) bs)"
  by (induction bs) (simp_all add: encode_uid_def content_loop_eq toUpperCase_def)

lemma encode_uid_Cons:
  "encode_uid (b # bs) = toUpperCase (utoa_hex (unat b)) @ encode_uid bs"
  by (simp add: encode_uid_concat)

lemma utoa_hex_small: "n < 16 \<Longrightarrow> utoa_hex n = [hex_char n]"
  by (simp add: utoa_hex.simps)

lemma utoa_hex_two: "16 \<le> n \<Longrightarrow> n < 256 \<Longrightarrow> utoa_hex n = [hex_char (n div 16), hex_char (n mod 16)]"
  by (simp add: utoa_hex.simps [of n] utoa_hex_small)

lemma encode_uid_Nil: "encode_uid [] = []"
  by (simp add: encode_uid_def toUpperCase_def)

lemmas codec_eval_simps = encode_uid_Cons encode_uid_Nil utoa_hex_two utoa_hex_small hex_char_def
  to_upper_char_def toUpperCase_def

lemma hex_digit_table:
  "list_all (\<lambda>d. to_upper_char (hex_char d) \<in> upper_hex_digits \<and>
                  hex_val (to_upper_char (hex_char d)) = Some d) [0..<16]"
  by code_simp

lemma upper_hex_char: "d < 16 \<Longrightarrow> to_upper_char (hex_char d) \<in> upper_hex_digits"
  using hex_digit_table by (simp add: list_all_iff)

lemma hex_val_upper_hex_char: "d < 16 \<Longrightarrow> hex_val (to_upper_char (hex_char d)) = Some d"
  using hex_digit_table by (simp add: list_all_iff)

lemma byte_digits: "unat (b :: byte) < 256"
  using unsigned_less [of b] by simp

lemma utoa_hex_byte_cases:
  "utoa_hex (unat (b :: byte)) = [hex_char (unat b)] \<and> unat b < 16 \<or>
   utoa_hex (unat b) = [hex_char (unat b div 16), hex_char (unat b mod 16)] \<and> 16 \<le> unat b"
  using byte_digits [of b] utoa_hex_small utoa_hex_two by (cases "unat b < 16") auto

lemma byte_digits_upper:
  "set (toUpperCase (utoa_hex (unat (b :: byte)))) \<subseteq> upper_hex_digits"
proof -
  have "unat b div 16 < 16" using byte_digits [of b] by simp
  then show ?thesis
    using utoa_hex_byte_cases [of b] upper_hex_char [of "unat b div 16"]
      upper_hex_char [of "unat b mod 16"] upper_hex_char [of "unat b"]
    by (auto simp: toUpperCase_def)
qed

lemma byte_digits_length:
  "1 \<le> length (toUpperCase (utoa_hex (unat (b :: byte)))) \<and>
   length (toUpperCase (utoa_hex (unat b))) \<le> 2"
  using utoa_hex_byte_cases [of b] by (auto simp: toUpperCase_def)

lemma encode_uid_two_digit:
  "16 \<le> unat (b :: byte) \<Longrightarrow>
   encode_uid (b # bs) = to_upper_char (hex_char (unat b div 16)) #
                         to_upper_char (hex_char (unat b mod 16)) # encode_uid bs"
  using utoa_hex_byte_cases [of b] by (simp add: encode_uid_Cons toUpperCase_def)

lemma encode_uid_length_wide:
  "\<forall>b \<in> set bs. 16 \<le> unat b \<Longrightarrow> length (encode_uid bs) = 2 * length bs"
  by (induction bs) (simp_all add: encode_uid_Nil encode_uid_two_digit)

lemma encode_uid_set: "set (encode_uid bs) = (\<Union>b \<in> set bs. set (toUpperCase (utoa_hex (unat b))))"
  by (simp add: encode_uid_concat)

lemma encode_uid_no_nul: "CHR 0x00 \<notin> set (encode_uid bs)"
proof -
  have "CHR 0x00 \<notin> upper_hex_digits" by (simp add: upper_hex_digits_def)
  then show ?thesis using byte_digits_upper by (fastforce simp: encode_uid_set)
qed

text \<open>C33: every character of a canonical identifier is an upper-case hexadecimal
  digit, whatever bytes the reader delivered.\<close>

theorem encode_uid_alphabet: "set (encode_uid bs) \<subseteq> upper_hex_digits"
  using byte_digits_upper by (auto simp: encode_uid_set)

text \<open>C34: a UID of \<open>n\<close> bytes is rendered with at least \<open>n\<close> and at most \<open>2 n\<close>
  characters: one or two digits per byte, since \<open>String(v, HEX)\<close> drops the
  leading zero of bytes below \<open>0x10\<close>.\<close>

theorem encode_uid_length:
  "length bs \<le> length (encode_uid bs) \<and> length (encode_uid bs) \<le> 2 * length bs"
proof (induction bs)
  case Nil
  then show ?case by (simp add: encode_uid_Nil)
next
  case (Cons b bs)
  with byte_digits_length [of b] show ?case by (simp add: encode_uid_Cons)
qed

text \<open>C35: when every byte is at least \<open>0x10\<close> (so is written with two digits), the
  canonical identifier determines the raw UID: reading it back two digits per byte
  gives the bytes the reader delivered.\<close>

theorem encode_uid_roundtrip:
  "\<forall>b \<in> set bs. 16 \<le> unat b \<Longrightarrow> decode_hex (encode_uid bs) = Some bs"
proof (induction bs)
  case Nil
  then show ?case by (simp add: encode_uid_Nil)
next
  case (Cons b bs)
  then have wide: "16 \<le> unat b" and IH: "decode_hex (encode_uid bs) = Some bs"
    by simp_all
  have hi: "hex_val (to_upper_char (hex_char (unat b div 16))) = Some (unat b div 16)"
    using byte_digits [of b] by (intro hex_val_upper_hex_char) simp
  have lo: "hex_val (to_upper_char (hex_char (unat b mod 16))) = Some (unat b mod 16)"
    by (intro hex_val_upper_hex_char) simp
  have "word_of_nat (16 * (unat b div 16) + unat b mod 16) = b"
    by simp
  with wide hi lo IH show ?case
    by (simp add: encode_uid_two_digit)
qed

theorem encode_uid_roundtrip_witness:
  "16 \<le> unat (0xD3 :: byte) \<and> 16 \<le> unat (0xEC :: byte) \<and> 16 \<le> unat (0x2B :: byte) \<and>
   16 \<le> unat (0x28 :: byte) \<and>
   decode_hex (encode_uid [0xD3, 0xEC, 0x2B, 0x28]) = Some [0xD3, 0xEC, 0x2B, 0x28]"
proof -
  have h: "\<forall>b \<in> set [0xD3, 0xEC, 0x2B, 0x28 :: byte]. 16 \<le> unat b" by simp
  show ?thesis using h encode_uid_roundtrip [OF h] by simp
qed

lemma encode_uid_single_small:
  "unat (b :: byte) < 16 \<Longrightarrow> encode_uid (b # bs) = to_upper_char (hex_char (unat b)) # encode_uid bs"
  by (simp add: encode_uid_Cons utoa_hex_small toUpperCase_def)

text \<open>C36: without zero padding the rendering is not injective: for every byte
  \<open>a\<close> in \<open>1 .. 15\<close> (one digit) and every byte \<open>b\<close> of at least \<open>0x10\<close> (two
  digits), the distinct UIDs \<open>a b\<close> and \<open>(16 a + b div 16) (b mod 16)\<close> are rendered
  as the same identifier (\<open>01 23\<close> and \<open>12 03\<close> both give \<open>"123"\<close>), so distinct
  cards can share one identifier.\<close>

theorem encode_uid_collision:
  fixes a b :: byte
  assumes a0: "0 < unat a" and a16: "unat a < 16" and b16: "16 \<le> unat b"
  shows "encode_uid [a, b] = encode_uid [word_of_nat (16 * unat a + unat b div 16), word_of_nat (unat b mod 16)] \<and>
         [a, b] \<noteq> [word_of_nat (16 * unat a + unat b div 16), word_of_nat (unat b mod 16)]"
proof -
  define h where "h = 16 * unat a + unat b div 16"
  have bd: "unat b div 16 < 16" using byte_digits [of b] by simp
  have h256: "h < 256" using a16 bd by (simp add: h_def)
  have uh: "unat (word_of_nat h :: byte) = h" by (rule unat_of_nat_byte [OF h256])
  have h16: "16 \<le> h" using a0 by (simp add: h_def)
  have ul: "unat (word_of_nat (unat b mod 16) :: byte) = unat b mod 16" by simp
  have hd: "h div 16 = unat a" and hm: "h mod 16 = unat b div 16" using bd by (simp_all add: h_def)
  have "encode_uid [a, b] =
          [to_upper_char (hex_char (unat a)), to_upper_char (hex_char (unat b div 16)),
           to_upper_char (hex_char (unat b mod 16))]"
    using a16 b16 by (simp add: encode_uid_single_small encode_uid_two_digit encode_uid_Nil)
  moreover have "encode_uid [word_of_nat h, word_of_nat (unat b mod 16)] =
          [to_upper_char (hex_char (unat a)), to_upper_char (hex_char (unat b div 16)),
           to_upper_char (hex_char (unat b mod 16))]"
  proof -
    have "encode_uid [word_of_nat h, word_of_nat (unat b mod 16)] =
            to_upper_char (hex_char (h div 16)) # to_upper_char (hex_char (h mod 16)) #
            encode_uid [word_of_nat (unat b mod 16)]"
      using encode_uid_two_digit [of "word_of_nat h" "[word_of_nat (unat b mod 16)]"] h16
      unfolding uh by simp
    also have "encode_uid [word_of_nat (unat b mod 16) :: byte] = [to_upper_char (hex_char (unat b mod 16))]"
      using ul by (simp add: encode_uid_single_small encode_uid_Nil)
    finally show ?thesis by (simp only: hd hm)
  qed
  moreover have "a \<noteq> word_of_nat h" using uh a16 h16 by auto
  ultimately show ?thesis by (simp add: h_def [symmetric])
qed

theorem encode_uid_collision_witness:
  "0 < unat (0x01 :: byte) \<and> unat (0x01 :: byte) < 16 \<and> 16 \<le> unat (0x23 :: byte) \<and>
   encode_uid [0x01, 0x23] = encode_uid [0x12, 0x03] \<and> [0x01, 0x23] \<noteq> ([0x12, 0x03] :: byte list)"
proof -
  have a0: "0 < unat (0x01 :: byte)" and a16: "unat (0x01 :: byte) < 16" and b16: "16 \<le> unat (0x23 :: byte)"
    by simp_all
  show ?thesis using a0 a16 b16 encode_uid_collision [OF a0 a16 b16] by simp
qed
end
