(* ===== verification/Store.thy ===== *)
theory Store
  imports Codec
begin

text \<open>
  The persistent identifier store of \<open>src/src/main.cpp\<close>: the global
  \<open>cardCount\<close> and the EEPROM, laid out as byte 0 = the count and, for slot
  \<open>i\<close>, the twelve bytes from \<open>1 + i * UIDLength\<close>.  Its operations are
  \<open>saveUIDToEEPROM\<close>, \<open>readUIDFromEEPROM\<close>, \<open>checkUID\<close> (a linear scan),
  \<open>addUID\<close> (capacity check, duplicate check, slot write, count write) and
  \<open>resetEEPROM\<close>.  The record \<open>store\<close> is extended by the controller state,
  so every operation here is stated over \<open>'a store_scheme\<close> and applies to the
  controller unchanged.  The abstract view of a store is the list of the
  identifiers in slots \<open>0 .. cardCount - 1\<close>; \<open>addUID\<close> refines an insert
  on that list.  The theory also proves the properties of sequences of inserts the
  spec lists, and where \<open>addUID\<close> may write.
\<close>

subsection \<open>Constants and state\<close>

definition maxCards :: nat where
  "maxCards = 50"

definition UIDLength :: nat where
  "UIDLength = 12"

record store =
  ee :: eeprom
  cardCount :: nat

datatype store_error = DuplicateIdentifier | CapacityExceeded

subsection \<open>Slots\<close>

text \<open>\<open>int start = 1 + (index * UIDLength);\<close>\<close>

definition slot_start :: "nat \<Rightarrow> nat" where
  "slot_start index = 1 + index * UIDLength"

text \<open>\<open>UID[i]\<close> on an Arduino \<open>String\<close>: past the end, \<open>operator[]\<close> yields
  the NUL character.\<close>

definition string_at :: "string \<Rightarrow> nat \<Rightarrow> char" where
  "string_at s i = (if i < length s then s ! i else CHR 0x00)"

text \<open>The writes of \<open>saveUIDToEEPROM(index, UID)\<close>:
  \<open>for (i = 0; i < UIDLength; i++) EEPROM.write(start + i, UID[i]);\<close>\<close>

definition save_writes :: "nat \<Rightarrow> uid \<Rightarrow> (nat \<times> byte) list" where
  "save_writes index u =
     map (\<lambda>i. (slot_start index + i, byte_of_char (string_at u i))) [0..<UIDLength]"

definition saveUIDToEEPROM :: "nat \<Rightarrow> uid \<Rightarrow> eeprom \<Rightarrow> eeprom" where
  "saveUIDToEEPROM index u e = ee_writes (save_writes index u) e"

text \<open>\<open>readUIDFromEEPROM(index)\<close>: twelve characters read into a buffer with a NUL
  after them; \<open>String(UID)\<close> keeps the characters before the first NUL.\<close>

definition readUIDFromEEPROM :: "nat \<Rightarrow> eeprom \<Rightarrow> uid" where
  "readUIDFromEEPROM index e =
     takeWhile (\<lambda>c. c \<noteq> CHR 0x00)
       (map (\<lambda>i. char_of_byte (e (slot_start index + i))) [0..<UIDLength])"

subsection \<open>Lookup\<close>

text \<open>\<open>checkUID\<close>: \<open>for (i = 0; i < cardCount; i++) if (readUIDFromEEPROM(i) == UID)
  return true; return false;\<close>, the loop from index \<open>i\<close> on.\<close>

function check_loop :: "nat \<Rightarrow> uid \<Rightarrow> 'a store_scheme \<Rightarrow> bool" where
  "check_loop i u s =
     (if i < cardCount s then
        (if readUIDFromEEPROM i (ee s) = u then True else check_loop (Suc i) u s)
      else False)"
  by pat_completeness auto
termination
  by (relation "measure (\<lambda>(i, u, s). cardCount s - i)") auto

declare check_loop.simps [simp del]

definition checkUID :: "uid \<Rightarrow> 'a store_scheme \<Rightarrow> bool" where
  "checkUID u s = check_loop 0 u s"

subsection \<open>Insertion and reset\<close>

text \<open>\<open>addUID(newUID)\<close>: if there is room and the identifier is not present, save it
  in slot \<open>cardCount\<close>, increment \<open>cardCount\<close>, then write the new count to
  byte 0.  The two refusals print a message and change nothing; they are the two
  errors.\<close>

text \<open>The EEPROM writes of a successful insert into slot \<open>n\<close>, in program order:
  \<open>saveUIDToEEPROM(cardCount++, newUID); EEPROM.write(0, cardCount);\<close>\<close>

definition add_writes :: "nat \<Rightarrow> uid \<Rightarrow> (nat \<times> byte) list" where
  "add_writes n u = save_writes n u @ [(0, word_of_nat (Suc n))]"

definition addUID :: "uid \<Rightarrow> 'a store_scheme \<Rightarrow> store_error + 'a store_scheme" where
  "addUID u s =
     (if cardCount s < maxCards then
        (if \<not> checkUID u s then
           Inr (s\<lparr>ee := ee_writes (add_writes (cardCount s) u) (ee s),
                 cardCount := Suc (cardCount s)\<rparr>)
         else Inl DuplicateIdentifier)
      else Inl CapacityExceeded)"

text \<open>\<open>addUID\<close> returns nothing: a refusal leaves the state as it was.\<close>

definition addUID_state :: "uid \<Rightarrow> 'a store_scheme \<Rightarrow> 'a store_scheme" where
  "addUID_state u s = (case addUID u s of Inl _ \<Rightarrow> s | Inr s' \<Rightarrow> s')"

text \<open>What \<open>addUID\<close> prints for each outcome.\<close>

definition addUID_log :: "uid \<Rightarrow> 'a store_scheme \<Rightarrow> diag" where
  "addUID_log u s =
     (case addUID u s of
        Inl DuplicateIdentifier \<Rightarrow> MsgAlreadyAdded
      | Inl CapacityExceeded \<Rightarrow> MsgLimitExceeded
      | Inr _ \<Rightarrow> MsgCardAdded)"

text \<open>\<open>resetEEPROM()\<close> writes 0 to byte 0 (and then restarts the program, which the
  controller models).\<close>

definition resetEEPROM :: "eeprom \<Rightarrow> eeprom" where
  "resetEEPROM e = e(0 := 0)"

subsection \<open>Abstract view\<close>

text \<open>The identifiers in the valid slots, as the running program sees them, and as
  a restart would see them (the count read back from byte 0).\<close>

definition stored_uids :: "'a store_scheme \<Rightarrow> uid list" where
  "stored_uids s = map (\<lambda>i. readUIDFromEEPROM i (ee s)) [0..<cardCount s]"

definition persisted_uids :: "eeprom \<Rightarrow> uid list" where
  "persisted_uids e = map (\<lambda>i. readUIDFromEEPROM i e) [0..<unat (e 0)]"

text \<open>The form an identifier takes in a slot: its first twelve characters, NUL-padded,
  read back up to the first NUL.\<close>

definition stored_form :: "uid \<Rightarrow> uid" where
  "stored_form u = takeWhile (\<lambda>c. c \<noteq> CHR 0x00) (map (string_at u) [0..<UIDLength])"

definition valid_uid :: "uid \<Rightarrow> bool" where
  "valid_uid u \<longleftrightarrow> length u \<le> UIDLength \<and> CHR 0x00 \<notin> set u"

text \<open>The insert an abstract bounded list store promises, with the refusals in the
  order \<open>addUID\<close> checks them.\<close>

definition abs_insert :: "uid \<Rightarrow> uid list \<Rightarrow> store_error + uid list" where
  "abs_insert u L =
     (if length L < maxCards then
        (if u \<in> set L then Inl DuplicateIdentifier else Inr (L @ [u]))
      else Inl CapacityExceeded)"

text \<open>The count is in range and persisted in byte 0; the store invariant adds that no
  identifier is stored twice.\<close>

definition count_inv :: "'a store_scheme \<Rightarrow> bool" where
  "count_inv s \<longleftrightarrow> cardCount s \<le> maxCards \<and> ee s 0 = word_of_nat (cardCount s)"

definition store_inv :: "'a store_scheme \<Rightarrow> bool" where
  "store_inv s \<longleftrightarrow>
     cardCount s \<le> maxCards \<and> ee s 0 = word_of_nat (cardCount s) \<and> distinct (stored_uids s)"

subsection \<open>Slot lemmas\<close>

lemma slot_start_ge: "1 \<le> slot_start i"
  by (simp add: slot_start_def)

lemma slot_range_disjoint:
  assumes ne: "i \<noteq> j" and l: "l < UIDLength"
  shows "slot_start j + l \<notin> {slot_start i..<slot_start i + UIDLength}"
proof
  assume mem: "slot_start j + l \<in> {slot_start i..<slot_start i + UIDLength}"
  consider "i < j" | "j < i" using ne by linarith
  then show False
  proof cases
    case 1
    then have "Suc i * UIDLength \<le> j * UIDLength" by (intro mult_le_mono1) simp
    with mem show False by (simp add: slot_start_def)
  next
    case 2
    then have "Suc j * UIDLength \<le> i * UIDLength" by (intro mult_le_mono1) simp
    with mem l show False by (simp add: slot_start_def)
  qed
qed

lemma save_writes_addrs: "fst ` set (save_writes i u) = {slot_start i..<slot_start i + UIDLength}"
proof -
  have "map fst (save_writes i u) = map (\<lambda>k. slot_start i + k) [0..<UIDLength]"
    by (simp add: save_writes_def)
  also have "\<dots> = [slot_start i..<slot_start i + UIDLength]"
    by (rule nth_equalityI) simp_all
  finally show ?thesis by (metis list.set_map set_upt)
qed

lemma save_writes_distinct: "distinct (map fst (save_writes i u))"
  by (simp add: save_writes_def distinct_map inj_on_def)

lemma save_writes_byte0: "0 \<notin> fst ` set (save_writes i u)"
  using slot_start_ge [of i] by (auto simp: save_writes_addrs)

lemma save_writes_at:
  "k < UIDLength \<Longrightarrow> ee_writes (save_writes i u) e (slot_start i + k) = byte_of_char (string_at u k)"
  by (rule ee_writes_member [OF save_writes_distinct]) (auto simp: save_writes_def)

lemma save_writes_other_slot:
  "i \<noteq> j \<Longrightarrow> l < UIDLength \<Longrightarrow> ee_writes (save_writes i u) e (slot_start j + l) = e (slot_start j + l)"
  by (rule ee_writes_other) (simp only: save_writes_addrs slot_range_disjoint not_False_eq_True)

lemma read_slot_cong:
  assumes "\<And>k. k < UIDLength \<Longrightarrow> e' (slot_start i + k) = e (slot_start i + k)"
  shows "readUIDFromEEPROM i e' = readUIDFromEEPROM i e"
proof -
  have eq: "map (\<lambda>k. char_of_byte (e' (slot_start i + k))) [0..<UIDLength] =
            map (\<lambda>k. char_of_byte (e (slot_start i + k))) [0..<UIDLength]"
    using assms by simp
  show ?thesis by (simp only: readUIDFromEEPROM_def eq)
qed

lemma read_upd_byte0 [simp]: "readUIDFromEEPROM i (e(0 := v)) = readUIDFromEEPROM i e"
  using slot_start_ge [of i] by (intro read_slot_cong) simp

lemma read_save_other:
  "i \<noteq> j \<Longrightarrow> readUIDFromEEPROM j (saveUIDToEEPROM i u e) = readUIDFromEEPROM j e"
  by (intro read_slot_cong) (simp add: saveUIDToEEPROM_def save_writes_other_slot)

lemma save_byte0: "saveUIDToEEPROM i u e 0 = e 0"
  by (simp add: saveUIDToEEPROM_def ee_writes_other save_writes_byte0)

lemma read_save_same: "readUIDFromEEPROM i (saveUIDToEEPROM i u e) = stored_form u"
proof -
  have eq: "map (\<lambda>k. char_of_byte (saveUIDToEEPROM i u e (slot_start i + k))) [0..<UIDLength] =
            map (string_at u) [0..<UIDLength]"
    by (simp add: saveUIDToEEPROM_def save_writes_at)
  show ?thesis by (simp only: readUIDFromEEPROM_def stored_form_def eq)
qed

lemma string_at_padded:
  "length u \<le> UIDLength \<Longrightarrow> map (string_at u) [0..<UIDLength] = u @ replicate (UIDLength - length u) (CHR 0x00)"
  by (rule nth_equalityI) (auto simp: string_at_def nth_append)

lemma stored_form_valid: "valid_uid u \<Longrightarrow> stored_form u = u"
proof -
  assume v: "valid_uid u"
  then have len: "length u \<le> UIDLength" and nul: "CHR 0x00 \<notin> set u"
    by (simp_all add: valid_uid_def)
  show ?thesis
  proof (cases "length u = UIDLength")
    case True
    have "\<forall>c \<in> set u. c \<noteq> CHR 0x00" using nul by blast
    with True show ?thesis
      by (simp add: stored_form_def string_at_padded takeWhile_all)
  next
    case False
    with len have "UIDLength - length u = Suc (UIDLength - Suc (length u))" by simp
    moreover have "\<forall>c \<in> set u. c \<noteq> CHR 0x00" using nul by blast
    ultimately show ?thesis using len
      by (simp add: stored_form_def string_at_padded takeWhile_append_stop del: replicate_Suc)
  qed
qed

lemma stored_form_long:
  "UIDLength \<le> length u \<Longrightarrow> CHR 0x00 \<notin> set u \<Longrightarrow> stored_form u = take UIDLength u"
proof -
  assume len: "UIDLength \<le> length u" and nul: "CHR 0x00 \<notin> set u"
  have "map (string_at u) [0..<UIDLength] = take UIDLength u"
    using len by (intro nth_equalityI) (auto simp: string_at_def)
  moreover have "\<forall>c \<in> set (take UIDLength u). c \<noteq> CHR 0x00"
    using nul in_set_takeD by fastforce
  ultimately show ?thesis
    by (simp add: stored_form_def takeWhile_all)
qed

subsection \<open>The scan\<close>

lemma check_loop_iff:
  "check_loop i u s \<longleftrightarrow> (\<exists>j. i \<le> j \<and> j < cardCount s \<and> readUIDFromEEPROM j (ee s) = u)"
proof (induction i u s rule: check_loop.induct)
  case (1 i u s)
  show ?case
  proof (cases "i < cardCount s")
    case True
    show ?thesis
    proof (cases "readUIDFromEEPROM i (ee s) = u")
      case found: True
      with \<open>i < cardCount s\<close> show ?thesis by (auto simp: check_loop.simps [of i u s])
    next
      case False
      with True "1.IH" have "check_loop i u s \<longleftrightarrow>
          (\<exists>j. Suc i \<le> j \<and> j < cardCount s \<and> readUIDFromEEPROM j (ee s) = u)"
        by (simp add: check_loop.simps [of i u s])
      also have "\<dots> \<longleftrightarrow> (\<exists>j. i \<le> j \<and> j < cardCount s \<and> readUIDFromEEPROM j (ee s) = u)"
        using False by (metis Suc_leD le_neq_implies_less Suc_le_eq)
      finally show ?thesis .
    qed
  next
    case False
    then show ?thesis by (simp add: check_loop.simps [of i u s])
  qed
qed

subsection \<open>Insertion\<close>

lemma addUID_Inr:
  "addUID u s = Inr s' \<longleftrightarrow>
     cardCount s < maxCards \<and> \<not> checkUID u s \<and>
     s' = s\<lparr>ee := ee_writes (add_writes (cardCount s) u) (ee s), cardCount := Suc (cardCount s)\<rparr>"
  by (auto simp: addUID_def)

lemma add_writes_ee: "ee_writes (add_writes n u) e = (saveUIDToEEPROM n u e)(0 := word_of_nat (Suc n))"
  by (simp add: add_writes_def ee_writes_append saveUIDToEEPROM_def)

lemma stored_uids_add:
  "stored_uids (s\<lparr>ee := ee_writes (add_writes (cardCount s) u) (ee s), cardCount := Suc (cardCount s)\<rparr>)
     = stored_uids s @ [stored_form u]"
  by (simp add: stored_uids_def add_writes_ee read_save_same read_save_other)

lemma checkUID_scan: "checkUID u s \<longleftrightarrow> (\<exists>j < cardCount s. readUIDFromEEPROM j (ee s) = u)"
  by (simp add: checkUID_def check_loop_iff)

lemma checkUID_stored_form:
  "checkUID u s \<longleftrightarrow> u \<in> set (stored_uids s)"
  by (auto simp: checkUID_scan stored_uids_def)

lemma length_stored_uids [simp]: "length (stored_uids s) = cardCount s"
  by (simp add: stored_uids_def)

lemma addUID_success:
  assumes "addUID u s = Inr s'"
  shows "cardCount s < maxCards \<and> u \<notin> set (stored_uids s) \<and> cardCount s' = Suc (cardCount s) \<and>
     ee s' 0 = word_of_nat (Suc (cardCount s)) \<and> stored_uids s' = stored_uids s @ [stored_form u]"
proof -
  from assms have c: "cardCount s < maxCards" "\<not> checkUID u s"
    and s': "s' = s\<lparr>ee := ee_writes (add_writes (cardCount s) u) (ee s), cardCount := Suc (cardCount s)\<rparr>"
    by (simp_all add: addUID_Inr)
  from s' have "stored_uids s' = stored_uids s @ [stored_form u]"
    by (simp only: stored_uids_add)
  with c s' show ?thesis
    by (simp add: checkUID_stored_form add_writes_ee del: of_nat_Suc)
qed

text \<open>C1: \<open>addUID\<close> implements the insert of a bounded list store without duplicates:
  on the list of stored identifiers it refuses with \<open>CapacityExceeded\<close> when
  \<open>maxCards\<close> are stored, with \<open>DuplicateIdentifier\<close> when the identifier is
  present, and otherwise appends it, for every identifier that fits a slot.\<close>

theorem addUID_refines:
  "valid_uid u \<Longrightarrow> map_sum id stored_uids (addUID u s) = abs_insert u (stored_uids s)"
proof (cases "addUID u s")
  case (Inl err)
  then show ?thesis
    by (auto simp: addUID_def abs_insert_def checkUID_stored_form split: if_splits)
next
  case (Inr s')
  moreover assume "valid_uid u"
  ultimately show ?thesis
    using addUID_success [OF Inr]
    by (simp add: abs_insert_def stored_form_valid)
qed

theorem addUID_refines_witness:
  "valid_uid ''D3EC2B28'' \<and>
   map_sum id stored_uids (addUID ''D3EC2B28'' \<lparr>ee = (\<lambda>_. 0), cardCount = 0\<rparr>) =
     abs_insert ''D3EC2B28'' (stored_uids \<lparr>ee = (\<lambda>_. 0), cardCount = 0\<rparr>)"
proof -
  have v: "valid_uid ''D3EC2B28''" by (simp add: valid_uid_def UIDLength_def)
  show ?thesis using v addUID_refines [OF v] by simp
qed

text \<open>C2: the scan of \<open>checkUID\<close> terminates and answers exactly whether the
  identifier is among those stored in slots \<open>0 .. cardCount - 1\<close>.\<close>

theorem checkUID_correct: "checkUID u s = (u \<in> set (stored_uids s))"
  using check_loop_iff [of 0 u s] by (auto simp: checkUID_def stored_uids_def)

text \<open>C3: the store invariant (at most \<open>maxCards\<close> entries, the count persisted
  in byte 0, no identifier stored twice) is kept by every call of \<open>addUID\<close>
  with an identifier that fits a slot, successful or refused.\<close>

theorem addUID_store_inv:
  "store_inv s \<Longrightarrow> valid_uid u \<Longrightarrow> store_inv (addUID_state u s)"
proof (cases "addUID u s")
  case (Inl err)
  moreover assume "store_inv s"
  ultimately show ?thesis by (simp add: addUID_state_def)
next
  case (Inr s')
  assume inv: "store_inv s" and v: "valid_uid u"
  from addUID_success [OF Inr] v inv show ?thesis
    by (simp add: addUID_state_def Inr store_inv_def stored_form_valid del: of_nat_Suc)
qed

theorem addUID_store_inv_witness:
  "store_inv \<lparr>ee = (\<lambda>_. 0), cardCount = 0\<rparr> \<and> valid_uid ''D3EC2B28'' \<and>
   store_inv (addUID_state ''D3EC2B28'' \<lparr>ee = (\<lambda>_. 0), cardCount = 0\<rparr>)"
proof -
  have i: "store_inv \<lparr>ee = (\<lambda>_. 0), cardCount = 0\<rparr>"
    by (simp add: store_inv_def stored_uids_def maxCards_def)
  have v: "valid_uid ''D3EC2B28''" by (simp add: valid_uid_def UIDLength_def)
  show ?thesis using i v addUID_store_inv [OF i v] by simp
qed

subsection \<open>Persistence and power loss\<close>

lemma persisted_stored:
  "ee s 0 = word_of_nat (cardCount s) \<Longrightarrow> cardCount s < 256 \<Longrightarrow>
   persisted_uids (ee s) = stored_uids s"
  by (simp add: persisted_uids_def stored_uids_def)

lemma persisted_reset [simp]: "persisted_uids (e(0 := 0)) = []"
  by (simp add: persisted_uids_def)

lemma save_prefix_byte0: "ee_writes (take k (save_writes n u)) e 0 = e 0"
  by (intro ee_writes_prefix_other save_writes_byte0)

lemma save_prefix_slot_other:
  assumes "i \<noteq> n"
  shows "readUIDFromEEPROM i (ee_writes (take k (save_writes n u)) e) = readUIDFromEEPROM i e"
proof (intro read_slot_cong ee_writes_prefix_other)
  fix l assume l: "l < UIDLength"
  from assms have "n \<noteq> i" by simp
  from slot_range_disjoint [OF this l] show "slot_start i + l \<notin> fst ` set (save_writes n u)"
    by (simp add: save_writes_addrs)
qed

lemma length_add_writes: "length (add_writes n u) = Suc UIDLength"
  by (simp add: add_writes_def save_writes_def)

lemma take_add_writes:
  "k < length (add_writes n u) \<Longrightarrow> take k (add_writes n u) = take k (save_writes n u)"
  by (simp add: add_writes_def save_writes_def length_add_writes)

lemmas store_eval_simps = addUID_def addUID_state_def checkUID_def check_loop.simps maxCards_def
  UIDLength_def stored_uids_def persisted_uids_def readUIDFromEEPROM_def add_writes_def
  save_writes_def saveUIDToEEPROM_def slot_start_def string_at_def byte_of_char_def char_of_byte_def
  store_inv_def valid_uid_def

text \<open>C4: the write order of \<open>addUID\<close> (the slot first, the count last) makes an
  insert atomic for a power loss: after any prefix of its EEPROM writes, a restart
  (which reads the count from byte 0) sees exactly the identifiers stored before the
  insert, and after the last write exactly those stored after it.\<close>

theorem addUID_crash_consistent:
  assumes inv: "store_inv s" and ok: "addUID u s = Inr s'"
    and k: "k \<le> length (add_writes (cardCount s) u)"
  shows "persisted_uids (ee_writes (take k (add_writes (cardCount s) u)) (ee s)) =
           (if k < length (add_writes (cardCount s) u) then stored_uids s else stored_uids s')"
proof (cases "k < length (add_writes (cardCount s) u)")
  case True
  let ?e = "ee_writes (take k (save_writes (cardCount s) u)) (ee s)"
  from inv have c: "cardCount s \<le> maxCards" "ee s 0 = word_of_nat (cardCount s)"
    by (simp_all add: store_inv_def)
  then have "unat (?e 0) = cardCount s"
    by (simp add: save_prefix_byte0 maxCards_def)
  then have "persisted_uids ?e = stored_uids s"
    by (simp add: persisted_uids_def stored_uids_def save_prefix_slot_other)
  with True show ?thesis by (simp add: take_add_writes)
next
  case False
  with k have all: "take k (add_writes (cardCount s) u) = add_writes (cardCount s) u" by simp
  from ok have e: "ee s' = ee_writes (add_writes (cardCount s) u) (ee s)"
    by (simp add: addUID_Inr)
  from addUID_success [OF ok] have "ee s' 0 = word_of_nat (cardCount s')" "cardCount s' < 256"
    by (simp_all add: maxCards_def)
  then have "persisted_uids (ee s') = stored_uids s'" by (rule persisted_stored)
  with False all e show ?thesis by simp
qed

theorem addUID_crash_consistent_witness:
  "store_inv \<lparr>ee = (\<lambda>_. 0), cardCount = 0\<rparr> \<and>
   addUID ''D3EC2B28'' \<lparr>ee = (\<lambda>_. 0), cardCount = 0\<rparr> =
     Inr (addUID_state ''D3EC2B28'' \<lparr>ee = (\<lambda>_. 0), cardCount = 0\<rparr>) \<and>
   5 \<le> length (add_writes 0 ''D3EC2B28'') \<and>
   persisted_uids (ee_writes (take 5 (add_writes 0 ''D3EC2B28'')) (\<lambda>_. 0)) = []"
proof -
  let ?s = "\<lparr>ee = (\<lambda>_. 0 :: byte), cardCount = 0\<rparr>"
  have inv: "store_inv ?s" by (simp add: store_eval_simps)
  have ok: "addUID ''D3EC2B28'' ?s = Inr (addUID_state ''D3EC2B28'' ?s)"
    by (simp add: store_eval_simps)
  have k: "5 \<le> length (add_writes (cardCount ?s) ''D3EC2B28'')"
    by (simp add: length_add_writes UIDLength_def)
  show ?thesis
    using inv ok k addUID_crash_consistent [OF inv ok k]
    by (simp add: length_add_writes UIDLength_def stored_uids_def)
qed

subsection \<open>Slots and repeated inserts\<close>

text \<open>C23: a slot holds what was saved in it: reading slot \<open>i\<close> after
  \<open>saveUIDToEEPROM(i, u)\<close> gives \<open>u\<close> back for an identifier that fits the slot,
  and the count byte and every other slot are left as they were.\<close>

theorem slot_roundtrip:
  "valid_uid u \<Longrightarrow>
     readUIDFromEEPROM i (saveUIDToEEPROM i u e) = u \<and> saveUIDToEEPROM i u e 0 = e 0 \<and>
     (j \<noteq> i \<longrightarrow> readUIDFromEEPROM j (saveUIDToEEPROM i u e) = readUIDFromEEPROM j e)"
  by (simp add: read_save_same stored_form_valid read_save_other save_byte0)

theorem slot_roundtrip_witness:
  "valid_uid ''B2C82C1B'' \<and>
   readUIDFromEEPROM 3 (saveUIDToEEPROM 3 ''B2C82C1B'' (\<lambda>_. 0)) = ''B2C82C1B'' \<and>
   saveUIDToEEPROM 3 ''B2C82C1B'' (\<lambda>_. 0) 0 = 0 \<and>
   readUIDFromEEPROM 2 (saveUIDToEEPROM 3 ''B2C82C1B'' (\<lambda>_. 0)) = readUIDFromEEPROM 2 (\<lambda>_. 0)"
proof -
  have v: "valid_uid ''B2C82C1B''" by (simp add: valid_uid_def UIDLength_def)
  show ?thesis using v slot_roundtrip [OF v, of 3 "\<lambda>_. 0" 2] by simp
qed

text \<open>C25: presenting the same identifier twice: once an insert succeeded, a second
  \<open>addUID\<close> of it is refused with \<open>DuplicateIdentifier\<close> while the store has room
  (and, being a refusal, leaves the count unchanged).\<close>

theorem addUID_twice:
  assumes v: "valid_uid u" and ok: "addUID u s = Inr s'" and room: "cardCount s' < maxCards"
  shows "addUID u s' = Inl DuplicateIdentifier"
proof -
  from addUID_success [OF ok] v have "u \<in> set (stored_uids s')"
    by (simp add: stored_form_valid)
  with room show ?thesis by (simp add: addUID_def checkUID_stored_form)
qed

theorem addUID_twice_witness:
  "valid_uid ''D3EC2B28'' \<and>
   addUID ''D3EC2B28'' \<lparr>ee = (\<lambda>_. 0), cardCount = 0\<rparr> =
     Inr (addUID_state ''D3EC2B28'' \<lparr>ee = (\<lambda>_. 0), cardCount = 0\<rparr>) \<and>
   cardCount (addUID_state ''D3EC2B28'' \<lparr>ee = (\<lambda>_. 0), cardCount = 0\<rparr>) < maxCards \<and>
   addUID ''D3EC2B28'' (addUID_state ''D3EC2B28'' \<lparr>ee = (\<lambda>_. 0), cardCount = 0\<rparr>) =
     Inl DuplicateIdentifier"
proof -
  let ?s = "\<lparr>ee = (\<lambda>_. 0 :: byte), cardCount = 0\<rparr>"
  have v: "valid_uid ''D3EC2B28''" by (simp add: valid_uid_def UIDLength_def)
  have ok: "addUID ''D3EC2B28'' ?s = Inr (addUID_state ''D3EC2B28'' ?s)"
    by (simp add: store_eval_simps)
  have room: "cardCount (addUID_state ''D3EC2B28'' ?s) < maxCards"
    by (simp add: store_eval_simps)
  show ?thesis using v ok room addUID_twice [OF v ok room] by simp
qed

subsection \<open>Identifiers longer than a slot\<close>

lemma addUID_long_stored:
  assumes "addUID u s = Inr s'" and "UIDLength < length u" and "CHR 0x00 \<notin> set u"
  shows "stored_uids s' = stored_uids s @ [take UIDLength u] \<and> \<not> checkUID u s' \<and>
         cardCount s' = Suc (cardCount s)"
proof -
  from assms(2,3) have sf: "stored_form u = take UIDLength u" by (simp add: stored_form_long)
  from assms(2) have "length (take UIDLength u) \<noteq> length u" by simp
  then have ne: "u \<noteq> take UIDLength u" by metis
  from addUID_success [OF assms(1)] sf ne show ?thesis
    by (simp add: checkUID_stored_form)
qed

text \<open>C28: an identifier longer than the twelve-byte slot is stored truncated, so
  the duplicate check never finds it: inserting it twice succeeds twice and leaves
  the same truncated identifier in two slots, and the identifier is still not
  recognised.\<close>

theorem long_uid_stored_twice:
  assumes long: "UIDLength < length u" and nul: "CHR 0x00 \<notin> set u"
    and absent: "\<not> checkUID u s" and room: "Suc (cardCount s) < maxCards"
  shows "\<exists>s1 s2. addUID u s = Inr s1 \<and> addUID u s1 = Inr s2 \<and>
           \<not> checkUID u s2 \<and> \<not> distinct (stored_uids s2)"
proof -
  have "\<exists>s1. addUID u s = Inr s1" using absent room by (simp add: addUID_def)
  then obtain s1 where ok1: "addUID u s = Inr s1" by blast
  note st1 = addUID_long_stored [OF ok1 long nul]
  have "\<exists>s2. addUID u s1 = Inr s2" using st1 room by (simp add: addUID_def)
  then obtain s2 where ok2: "addUID u s1 = Inr s2" by blast
  note st2 = addUID_long_stored [OF ok2 long nul]
  from st1 st2 have "stored_uids s2 = stored_uids s @ [take UIDLength u, take UIDLength u]"
    by simp
  then have "\<not> distinct (stored_uids s2)" by simp
  with ok1 ok2 st2 show ?thesis by blast
qed

theorem long_uid_stored_twice_witness:
  "UIDLength < length ''04A1B2C3D4E5F6'' \<and> CHR 0x00 \<notin> set ''04A1B2C3D4E5F6'' \<and>
   \<not> checkUID ''04A1B2C3D4E5F6'' \<lparr>ee = (\<lambda>_. 0), cardCount = 0\<rparr> \<and>
   Suc (cardCount \<lparr>ee = (\<lambda>_. 0 :: byte), cardCount = 0\<rparr>) < maxCards \<and>
   (\<exists>s1 s2. addUID ''04A1B2C3D4E5F6'' \<lparr>ee = (\<lambda>_. 0), cardCount = 0\<rparr> = Inr s1 \<and>
      addUID ''04A1B2C3D4E5F6'' s1 = Inr s2 \<and>
      \<not> checkUID ''04A1B2C3D4E5F6'' s2 \<and> \<not> distinct (stored_uids s2))"
proof -
  let ?s = "\<lparr>ee = (\<lambda>_. 0 :: byte), cardCount = 0\<rparr>"
  have l: "UIDLength < length ''04A1B2C3D4E5F6''" by (simp add: UIDLength_def)
  have n: "CHR 0x00 \<notin> set ''04A1B2C3D4E5F6''" by simp
  have a: "\<not> checkUID ''04A1B2C3D4E5F6'' ?s" by (simp add: checkUID_def check_loop.simps)
  have r: "Suc (cardCount ?s) < maxCards" by (simp add: maxCards_def)
  show ?thesis using l n a r long_uid_stored_twice [OF l n a r] by simp
qed

text \<open>C29: a seven-byte UID (the PN532 delivers 4- or 7-byte UIDs) whose bytes are
  all at least \<open>0x10\<close> is rendered with fourteen characters, more than a slot holds;
  once enrolled it is stored truncated and \<open>checkUID\<close> never recognises the card.\<close>

theorem seven_byte_uid_unrecognised:
  assumes len: "length bs = 7" and wide: "\<forall>b \<in> set bs. 16 \<le> unat b"
    and ok: "addUID (encode_uid bs) s = Inr s'"
  shows "UIDLength < length (encode_uid bs) \<and> \<not> checkUID (encode_uid bs) s'"
proof -
  have "length (encode_uid bs) = 14" using encode_uid_length_wide [OF wide] len by simp
  then have long: "UIDLength < length (encode_uid bs)" by (simp add: UIDLength_def)
  with addUID_long_stored [OF ok long encode_uid_no_nul] show ?thesis by simp
qed

theorem seven_byte_uid_unrecognised_witness:
  "length [0x11, 0x22, 0x33, 0x44, 0x55, 0x66, 0x77 :: byte] = 7 \<and>
   16 \<le> unat (0x11 :: byte) \<and> 16 \<le> unat (0x22 :: byte) \<and> 16 \<le> unat (0x33 :: byte) \<and>
   16 \<le> unat (0x44 :: byte) \<and> 16 \<le> unat (0x55 :: byte) \<and> 16 \<le> unat (0x66 :: byte) \<and>
   16 \<le> unat (0x77 :: byte) \<and>
   addUID (encode_uid [0x11, 0x22, 0x33, 0x44, 0x55, 0x66, 0x77]) \<lparr>ee = (\<lambda>_. 0), cardCount = 0\<rparr> =
     Inr (addUID_state (encode_uid [0x11, 0x22, 0x33, 0x44, 0x55, 0x66, 0x77])
            \<lparr>ee = (\<lambda>_. 0), cardCount = 0\<rparr>) \<and>
   UIDLength < length (encode_uid [0x11, 0x22, 0x33, 0x44, 0x55, 0x66, 0x77]) \<and>
   \<not> checkUID (encode_uid [0x11, 0x22, 0x33, 0x44, 0x55, 0x66, 0x77])
       (addUID_state (encode_uid [0x11, 0x22, 0x33, 0x44, 0x55, 0x66, 0x77])
          \<lparr>ee = (\<lambda>_. 0), cardCount = 0\<rparr>)"
proof -
  let ?bs = "[0x11, 0x22, 0x33, 0x44, 0x55, 0x66, 0x77 :: byte]"
  let ?s = "\<lparr>ee = (\<lambda>_. 0 :: byte), cardCount = 0\<rparr>"
  have len: "length ?bs = 7" by simp
  have wide: "\<forall>b \<in> set ?bs. 16 \<le> unat b" by simp
  have ok: "addUID (encode_uid ?bs) ?s = Inr (addUID_state (encode_uid ?bs) ?s)"
    by (simp add: addUID_def addUID_state_def checkUID_def check_loop.simps maxCards_def)
  show ?thesis using len wide ok seven_byte_uid_unrecognised [OF len wide ok] by simp
qed

subsection \<open>Facts the callers of the store share\<close>

lemma addUID_state_Inl: "addUID u s = Inl err \<Longrightarrow> addUID_state u s = s"
  by (simp add: addUID_state_def)

lemma addUID_state_Inr: "addUID u s = Inr s' \<Longrightarrow> addUID_state u s = s'"
  by (simp add: addUID_state_def)

lemma addUID_state_full: "maxCards \<le> cardCount s \<Longrightarrow> addUID_state u s = s"
  by (simp add: addUID_state_def addUID_def)

lemma addUID_state_present: "checkUID u s \<Longrightarrow> addUID_state u s = s"
  by (simp add: addUID_state_def addUID_def)

lemma addUID_count_inv: "count_inv s \<Longrightarrow> count_inv (addUID_state u s)"
proof (cases "addUID u s")
  case (Inl err)
  then show "count_inv s \<Longrightarrow> ?thesis" by (simp add: addUID_state_Inl)
next
  case (Inr s')
  from addUID_success [OF Inr] show ?thesis
    by (simp add: addUID_state_Inr [OF Inr] count_inv_def del: of_nat_Suc)
qed

lemma addUID_state_stored:
  "valid_uid u \<Longrightarrow> stored_uids (addUID_state u s) =
     (if cardCount s < maxCards \<and> u \<notin> set (stored_uids s) then stored_uids s @ [u] else stored_uids s)"
  by (cases "addUID u s")
    (auto simp: addUID_state_def addUID_def checkUID_stored_form stored_form_valid stored_uids_add
      dest: addUID_success split: if_splits)

lemma addUID_state_count:
  "cardCount (addUID_state u s) =
     (if cardCount s < maxCards \<and> \<not> checkUID u s then Suc (cardCount s) else cardCount s)"
  by (simp add: addUID_state_def addUID_def)

lemma addUID_state_keeps: "checkUID v s \<Longrightarrow> checkUID v (addUID_state u s)"
proof (cases "addUID u s")
  case (Inl err)
  then show "checkUID v s \<Longrightarrow> ?thesis" by (simp add: addUID_state_Inl)
next
  case (Inr s')
  then show "checkUID v s \<Longrightarrow> ?thesis"
    using addUID_success [OF Inr] by (simp add: addUID_state_Inr checkUID_stored_form)
qed

lemma addUID_state_cases:
  "addUID_state u s = s \<or>
   addUID_state u s = s\<lparr>ee := ee_writes (add_writes (cardCount s) u) (ee s), cardCount := Suc (cardCount s)\<rparr>"
  by (simp add: addUID_state_def addUID_def)


lemma add_writes_addrs:
  "a \<in> fst ` set (add_writes n u) \<Longrightarrow> a = 0 \<or> a < slot_start n + UIDLength"
  by (auto simp: add_writes_def save_writes_addrs)

lemma addUID_state_changed:
  "addUID u s = Inr s' \<Longrightarrow> ee (addUID_state u s) a \<noteq> ee s a \<Longrightarrow> a \<in> fst ` set (add_writes (cardCount s) u)"
  using ee_writes_other by (fastforce simp: addUID_Inr addUID_state_Inr)

lemma slot_end_bound:
  "cardCount s < maxCards \<Longrightarrow> slot_start (cardCount s) + UIDLength \<le> 1 + maxCards * UIDLength"
  by (simp add: slot_start_def UIDLength_def maxCards_def)

lemma addUID_state_checkUID:
  assumes v: "valid_uid u"
  shows "checkUID x (addUID_state u s) \<longleftrightarrow> checkUID x s \<or> (x = u \<and> (\<exists>s'. addUID u s = Inr s'))"
proof (cases "addUID u s")
  case (Inl err)
  then show ?thesis by (simp add: addUID_state_Inl)
next
  case (Inr s')
  with v addUID_success [OF Inr] show ?thesis
    by (auto simp: addUID_state_Inr checkUID_stored_form stored_form_valid)
qed

lemma fold_insert_fresh:
  "distinct us \<Longrightarrow> list_all valid_uid us \<Longrightarrow> cardCount s + length us \<le> maxCards \<Longrightarrow>
   set us \<inter> set (stored_uids s) = {} \<Longrightarrow>
   stored_uids (fold addUID_state us s) = stored_uids s @ us"
proof (induction us arbitrary: s)
  case Nil
  then show ?case by simp
next
  case (Cons u us)
  then have v: "valid_uid u" and room: "cardCount s < maxCards" and new: "u \<notin> set (stored_uids s)" by auto
  then have st: "stored_uids (addUID_state u s) = stored_uids s @ [u]" by (simp add: addUID_state_stored)
  have "cardCount (addUID_state u s) = Suc (cardCount s)"
    using room new by (simp add: addUID_state_count checkUID_stored_form)
  with Cons.prems st have "stored_uids (fold addUID_state us (addUID_state u s)) = (stored_uids s @ [u]) @ us"
    by (intro Cons.IH [THEN trans]) auto
  then show ?case by simp
qed

subsection \<open>Footprint and sequences of inserts\<close>

text \<open>C31: \<open>addUID\<close> only ever writes inside the persisted layout: every EEPROM
  cell it changes lies below \<open>1 + maxCards * UIDLength\<close> = 601, the count byte
  and the fifty slots, whatever the store and the identifier.\<close>

theorem addUID_footprint:
  "ee (addUID_state u s) a \<noteq> ee s a \<Longrightarrow> a < 1 + maxCards * UIDLength"
proof -
  assume ch: "ee (addUID_state u s) a \<noteq> ee s a"
  then obtain s' where ok: "addUID u s = Inr s'"
    by (cases "addUID u s") (simp_all add: addUID_state_def)
  from ok ch have "a \<in> fst ` set (add_writes (cardCount s) u)" by (rule addUID_state_changed)
  then have "a = 0 \<or> a < slot_start (cardCount s) + UIDLength" by (rule add_writes_addrs)
  moreover have "slot_start (cardCount s) + UIDLength \<le> 1 + maxCards * UIDLength"
    using ok by (intro slot_end_bound) (simp add: addUID_def split: if_splits)
  ultimately show ?thesis by linarith
qed

theorem addUID_footprint_witness:
  "ee (addUID_state ''A1'' \<lparr>ee = (\<lambda>_. 0), cardCount = 0\<rparr>) 1 \<noteq> ee \<lparr>ee = (\<lambda>_. 0 :: byte), cardCount = 0\<rparr> 1 \<and>
   (1 :: nat) < 1 + maxCards * UIDLength"
proof -
  have ch: "ee (addUID_state ''A1'' \<lparr>ee = (\<lambda>_. 0), cardCount = 0\<rparr>) 1 \<noteq> ee \<lparr>ee = (\<lambda>_. 0 :: byte), cardCount = 0\<rparr> 1"
    by code_simp
  show ?thesis using ch addUID_footprint [OF ch] by simp
qed

text \<open>C11: after any sequence of calls of \<open>addUID\<close> with identifiers that fit a
  slot, \<open>checkUID\<close> finds exactly the identifiers that were stored before and those
  whose insertion succeeded: a successful insert is never lost, and an identifier
  that was never inserted is never found.\<close>

theorem insert_seq_contains:
  assumes "list_all valid_uid us"
  shows "checkUID x (fold addUID_state us s) \<longleftrightarrow>
           checkUID x s \<or> (\<exists>k < length us. us ! k = x \<and> (\<exists>s'. addUID x (fold addUID_state (take k us) s) = Inr s'))"
  using assms
proof (induction us rule: rev_induct)
  case Nil
  then show ?case by simp
next
  case (snoc u us)
  let ?P = "\<lambda>vs k. vs ! k = x \<and> (\<exists>s'. addUID x (fold addUID_state (take k vs) s) = Inr s')"
  have v: "valid_uid u" and IH: "checkUID x (fold addUID_state us s) \<longleftrightarrow> checkUID x s \<or> (\<exists>k < length us. ?P us k)"
    using snoc by simp_all
  have same: "(\<exists>k < length us. ?P (us @ [u]) k) \<longleftrightarrow> (\<exists>k < length us. ?P us k)"
    by (intro ex_cong1) (auto simp: nth_append)
  have last: "?P (us @ [u]) (length us) \<longleftrightarrow> x = u \<and> (\<exists>s'. addUID u (fold addUID_state us s) = Inr s')"
    by auto
  show ?case
    using IH v same last by (simp only: ex_less_snoc fold_append comp_def fold.simps id_def)
      (auto simp: addUID_state_checkUID)
qed

theorem insert_seq_contains_witness:
  "list_all valid_uid [''A1B2C3D4E5F6'', ''0A0B''] \<and>
   (checkUID ''0A0B'' (fold addUID_state [''A1B2C3D4E5F6'', ''0A0B''] \<lparr>ee = (\<lambda>_. 0), cardCount = 0\<rparr>) \<longleftrightarrow>
      checkUID ''0A0B'' \<lparr>ee = (\<lambda>_. 0), cardCount = 0\<rparr> \<or>
      (\<exists>k < length [''A1B2C3D4E5F6'', ''0A0B'']. [''A1B2C3D4E5F6'', ''0A0B''] ! k = ''0A0B'' \<and>
         (\<exists>s'. addUID ''0A0B'' (fold addUID_state (take k [''A1B2C3D4E5F6'', ''0A0B''])
                                   \<lparr>ee = (\<lambda>_. 0), cardCount = 0\<rparr>) = Inr s')))"
proof -
  have v: "list_all valid_uid [''A1B2C3D4E5F6'', ''0A0B'']" by (simp add: valid_uid_def UIDLength_def)
  show ?thesis using v insert_seq_contains [OF v] by blast
qed

text \<open>C13: the scenario of the spec: from an empty store, fifty distinct identifiers
  that fit a slot are all stored, in order, and the fifty-first insert is refused
  with \<open>CapacityExceeded\<close>.\<close>

theorem fill_then_full:
  assumes d: "distinct us" and v: "list_all valid_uid us" and l: "length us = maxCards"
  shows "stored_uids (fold addUID_state us \<lparr>ee = e, cardCount = 0\<rparr>) = us \<and>
         addUID x (fold addUID_state us \<lparr>ee = e, cardCount = 0\<rparr>) = Inl CapacityExceeded"
proof -
  have e0: "stored_uids \<lparr>ee = e, cardCount = 0\<rparr> = []" by (simp add: stored_uids_def)
  have s: "stored_uids (fold addUID_state us \<lparr>ee = e, cardCount = 0\<rparr>) = us"
    using fold_insert_fresh [OF d v, of "\<lparr>ee = e, cardCount = 0\<rparr>"] l e0 by simp
  then have "cardCount (fold addUID_state us \<lparr>ee = e, cardCount = 0\<rparr>) = maxCards"
    using l length_stored_uids by metis
  with s show ?thesis by (simp add: addUID_def)
qed

definition fifty_uids :: "uid list" where
  "fifty_uids = map (\<lambda>n. [hex_char (n div 10), hex_char (n mod 10)]) [0..<50]"

theorem fill_then_full_witness:
  "distinct fifty_uids \<and> list_all valid_uid fifty_uids \<and> length fifty_uids = maxCards \<and>
   stored_uids (fold addUID_state fifty_uids \<lparr>ee = (\<lambda>_. 0), cardCount = 0\<rparr>) = fifty_uids \<and>
   addUID ''A1B2C3D4E5F6'' (fold addUID_state fifty_uids \<lparr>ee = (\<lambda>_. 0), cardCount = 0\<rparr>) = Inl CapacityExceeded"
proof -
  have d: "distinct fifty_uids" by code_simp
  have v: "list_all valid_uid fifty_uids" by code_simp
  have l: "length fifty_uids = maxCards" by (simp add: fifty_uids_def maxCards_def)
  show ?thesis using d v l fill_then_full [OF d v l] by simp
qed


subsection \<open>What a slot can hold\<close>

lemma stored_form_short_eq:
  assumes w: "length w < UIDLength" and nul: "CHR 0x00 \<notin> set u" and eq: "stored_form u = w"
  shows "u = w"
proof (cases "length u \<le> UIDLength")
  case True
  with nul have "stored_form u = u" by (simp add: stored_form_valid valid_uid_def)
  with eq show ?thesis by simp
next
  case False
  with nul have "stored_form u = take UIDLength u" by (simp add: stored_form_long)
  with eq have "w = take UIDLength u" by simp
  with False w show ?thesis by auto
qed

lemma addUID_state_set:
  "x \<in> set (stored_uids (addUID_state u s)) \<Longrightarrow> x \<in> set (stored_uids s) \<or> x = stored_form u"
proof (cases "addUID u s")
  case (Inl err)
  then show "x \<in> set (stored_uids (addUID_state u s)) \<Longrightarrow> ?thesis" by (simp add: addUID_state_Inl)
next
  case (Inr s')
  then show "x \<in> set (stored_uids (addUID_state u s)) \<Longrightarrow> ?thesis"
    using addUID_success [OF Inr] by (auto simp: addUID_state_Inr)
qed

end
