(* ===== verification/Provision.thy ===== *)
theory Provision
  imports Store
begin

text \<open>
  The provisioning loader of \<open>src/src/main.cpp\<close>: the built-in table
  \<open>predefinedUIDs\<close> (lines 22--55) and \<open>addPredefinedUIDs()\<close> (lines 212--220),
  which \<open>setup()\<close> runs on every boot.  For each built-in identifier, in table
  order, it calls \<open>addUID\<close> when \<open>checkUID\<close> does not find it and then prints that
  the card was added.  The loop is \<open>seed_loop\<close>, a structural recursion over the
  list; \<open>abs_seed\<close> is the same loop on the abstract list of stored identifiers.
  The theory proves that the loop refines \<open>abs_seed\<close>, that seeding a list of
  distinct identifiers into an empty store stores its first \<open>maxCards\<close>, and that
  running the loader twice changes nothing the first run did not.
\<close>

subsection \<open>Definitions\<close>

definition predefinedUIDs :: "uid list" where
  "predefinedUIDs =
    [''4A9F4D99'', ''3AE0D799'', ''5A920999'', ''638B272D'', ''E3825718'', ''43355D2D'',
     ''5A688A99'', ''5A4F2199'', ''335C3F2D'', ''F35A172D'', ''3AE2B199'', ''73368713'',
     ''4A1D1F99'', ''DA8E7A99'', ''139D452D'', ''4A230B99'', ''DA1AF899'', ''3AF29E99'',
     ''5A368E99'', ''4AD6B399'', ''DA113999'', ''DA82B199'', ''DAEA6D99'', ''D3E3252D'',
     ''4A27F599'', ''DA092899'', ''83D8332D'', ''5A1C0B99'', ''5A90E899'', ''DA995199'',
     ''F3CC2A2D'']"

text \<open>\<open>for (i = 0; i < numPredefinedUIDs; i++) if (!checkUID(p[i])) { addUID(p[i]);
  Serial.println(...); }\<close>: the state after the loop and the lines printed.\<close>

fun seed_loop :: "uid list \<Rightarrow> 'a store_scheme \<Rightarrow> 'a store_scheme \<times> diag list" where
  "seed_loop [] s = (s, [])"
| "seed_loop (p # ps) s =
     (if \<not> checkUID p s then
        (let (s', log) = seed_loop ps (addUID_state p s)
         in (s', addUID_log p s # MsgPredefinedAdded p # log))
      else seed_loop ps s)"

definition addPredefinedUIDs :: "'a store_scheme \<Rightarrow> 'a store_scheme \<times> diag list" where
  "addPredefinedUIDs s = seed_loop predefinedUIDs s"

text \<open>The loader on the abstract list: append each identifier that is absent while
  there is room.\<close>

fun abs_seed :: "uid list \<Rightarrow> uid list \<Rightarrow> uid list" where
  "abs_seed [] L = L"
| "abs_seed (p # ps) L =
     abs_seed ps (if p \<notin> set L \<and> length L < maxCards then L @ [p] else L)"

subsection \<open>Lemmas\<close>

lemma predefined_valid: "\<forall>p \<in> set predefinedUIDs. valid_uid p"
  by (simp add: predefinedUIDs_def valid_uid_def UIDLength_def)

lemma predefined_distinct: "distinct predefinedUIDs"
  by (simp add: predefinedUIDs_def)

lemma length_predefined: "length predefinedUIDs = 31"
  by (simp add: predefinedUIDs_def)

lemma seed_loop_state:
  "fst (seed_loop (p # ps) s) = fst (seed_loop ps (addUID_state p s))"
proof (cases "checkUID p s")
  case True
  then show ?thesis by (simp add: addUID_state_present)
next
  case False
  then show ?thesis by (simp add: split_def Let_def)
qed

declare seed_loop.simps(2) [simp del]

lemma seed_loop_refines:
  "\<forall>p \<in> set ps. valid_uid p \<Longrightarrow>
   stored_uids (fst (seed_loop ps s)) = abs_seed ps (stored_uids s)"
proof (induction ps arbitrary: s)
  case Nil
  then show ?case by simp
next
  case (Cons p ps)
  from Cons.prems have v: "valid_uid p" and vs: "\<forall>x \<in> set ps. valid_uid x" by simp_all
  show ?case
    using Cons.IH [OF vs] by (simp add: seed_loop_state addUID_state_stored [OF v])
qed

lemma abs_seed_take:
  "distinct ps \<Longrightarrow> set ps \<inter> set L = {} \<Longrightarrow> length L \<le> maxCards \<Longrightarrow>
   abs_seed ps L = L @ take (maxCards - length L) ps"
proof (induction ps arbitrary: L)
  case Nil
  then show ?case by simp
next
  case (Cons p ps)
  show ?case
  proof (cases "length L < maxCards")
    case True
    then have "maxCards - length L = Suc (maxCards - length (L @ [p]))" by simp
    with True Cons.prems Cons.IH [of "L @ [p]"] show ?thesis by auto
  next
    case False
    with Cons.prems Cons.IH [of L] show ?thesis by auto
  qed
qed

lemma seed_loop_mono:
  "(checkUID v s \<longrightarrow> checkUID v (fst (seed_loop ps s))) \<and>
   cardCount s \<le> cardCount (fst (seed_loop ps s))"
proof (induction ps arbitrary: s)
  case Nil
  then show ?case by simp
next
  case (Cons p ps)
  have "checkUID v s \<longrightarrow> checkUID v (addUID_state p s)" by (simp add: addUID_state_keeps)
  moreover have "cardCount s \<le> cardCount (addUID_state p s)" by (simp add: addUID_state_count)
  ultimately show ?case using Cons.IH [of "addUID_state p s"]
    by (simp add: seed_loop_state)
qed

lemma addUID_state_covers:
  "valid_uid p \<Longrightarrow> checkUID p (addUID_state p s) \<or> maxCards \<le> cardCount (addUID_state p s)"
  by (auto simp: checkUID_stored_form addUID_state_stored addUID_state_present addUID_state_full)

lemma seed_loop_covers:
  "\<forall>p \<in> set ps. valid_uid p \<Longrightarrow> q \<in> set ps \<Longrightarrow>
   checkUID q (fst (seed_loop ps s)) \<or> maxCards \<le> cardCount (fst (seed_loop ps s))"
proof (induction ps arbitrary: s)
  case Nil
  then show ?case by simp
next
  case (Cons p ps)
  show ?case
  proof (cases "q = p")
    case True
    with Cons.prems have "checkUID q (addUID_state p s) \<or> maxCards \<le> cardCount (addUID_state p s)"
      by (simp add: addUID_state_covers)
    with seed_loop_mono [of q "addUID_state p s" ps] show ?thesis
      by (auto simp: seed_loop_state)
  next
    case False
    with Cons show ?thesis by (simp add: seed_loop_state)
  qed
qed

lemma seed_loop_stable:
  "\<forall>q \<in> set ps. checkUID q s \<or> maxCards \<le> cardCount s \<Longrightarrow> fst (seed_loop ps s) = s"
proof (induction ps)
  case Nil
  then show ?case by simp
next
  case (Cons p ps)
  then have "addUID_state p s = s"
    by (auto simp: addUID_state_present addUID_state_full)
  with Cons show ?case by (simp add: seed_loop_state)
qed

lemma seed_loop_full: "maxCards \<le> cardCount s \<Longrightarrow> fst (seed_loop ps s) = s"
  by (simp add: seed_loop_stable)

lemma seed_loop_count_inv: "count_inv s \<Longrightarrow> count_inv (fst (seed_loop ps s))"
  by (induction ps arbitrary: s) (simp_all add: seed_loop_state addUID_count_inv)

lemma abs_seed_set: "set (abs_seed ps L) \<subseteq> set L \<union> set ps"
  by (induction ps arbitrary: L) (fastforce split: if_splits)+

text \<open>C21: running the loader a second time on what the first run left changes
  nothing: every built-in card is then either stored or the store is full, so the
  second run neither writes the EEPROM nor changes the count.\<close>

theorem seed_idempotent:
  "fst (addPredefinedUIDs (fst (addPredefinedUIDs s))) = fst (addPredefinedUIDs s)"
  unfolding addPredefinedUIDs_def
  by (rule seed_loop_stable) (simp add: seed_loop_covers predefined_valid)

text \<open>C22: seeding distinct identifiers that fit a slot into an empty store stores the
  first \<open>maxCards\<close> of them, in order: inserts succeed until the store is full and
  every later one is refused with \<open>CapacityExceeded\<close>.\<close>

theorem seed_fills:
  "distinct ps \<Longrightarrow> \<forall>p \<in> set ps. valid_uid p \<Longrightarrow> cardCount s = 0 \<Longrightarrow>
   stored_uids (fst (seed_loop ps s)) = take maxCards ps"
proof -
  assume d: "distinct ps" and v: "\<forall>p \<in> set ps. valid_uid p" and c: "cardCount s = 0"
  from c have "stored_uids s = []" by (simp add: stored_uids_def)
  with d v show ?thesis by (simp add: seed_loop_refines abs_seed_take)
qed

theorem seed_fills_witness:
  "distinct predefinedUIDs \<and> list_all valid_uid predefinedUIDs \<and>
   cardCount \<lparr>ee = (\<lambda>_. 0 :: byte), cardCount = 0\<rparr> = 0 \<and>
   stored_uids (fst (addPredefinedUIDs \<lparr>ee = (\<lambda>_. 0), cardCount = 0\<rparr>)) = predefinedUIDs"
proof -
  have c: "cardCount \<lparr>ee = (\<lambda>_. 0 :: byte), cardCount = 0\<rparr> = 0" by simp
  have "take maxCards predefinedUIDs = predefinedUIDs"
    by (simp add: length_predefined maxCards_def)
  then show ?thesis
    using seed_fills [OF predefined_distinct predefined_valid c] predefined_distinct predefined_valid
    by (simp add: addPredefinedUIDs_def list_all_iff)
qed

text \<open>C30: the loader's report does not follow the outcome: when the store is full it
  still prints that a built-in card was added, right after \<open>addUID\<close> reported that
  the limit was exceeded, and the store is unchanged.\<close>

theorem seed_misreport:
  "maxCards \<le> cardCount s \<Longrightarrow> \<not> checkUID p s \<Longrightarrow>
   seed_loop [p] s = (s, [MsgLimitExceeded, MsgPredefinedAdded p])"
  by (simp add: seed_loop.simps addUID_state_full addUID_log_def addUID_def)

theorem seed_misreport_witness:
  "maxCards \<le> cardCount \<lparr>ee = (\<lambda>_. 0 :: byte), cardCount = 50\<rparr> \<and>
   \<not> checkUID ''4A9F4D99'' \<lparr>ee = (\<lambda>_. 0 :: byte), cardCount = 50\<rparr> \<and>
   seed_loop [''4A9F4D99''] \<lparr>ee = (\<lambda>_. 0 :: byte), cardCount = 50\<rparr> =
     (\<lparr>ee = (\<lambda>_. 0), cardCount = 50\<rparr>, [MsgLimitExceeded, MsgPredefinedAdded ''4A9F4D99''])"
proof -
  let ?s = "\<lparr>ee = (\<lambda>_. 0 :: byte), cardCount = 50\<rparr>"
  have f: "maxCards \<le> cardCount ?s" by (simp add: maxCards_def)
  have "readUIDFromEEPROM j (\<lambda>_. 0) = []" for j
    by (simp add: readUIDFromEEPROM_def UIDLength_def upt_rec)
  then have a: "\<not> checkUID ''4A9F4D99'' ?s" by (simp add: checkUID_scan)
  show ?thesis using f a seed_misreport [OF f a] by simp
qed

end
