(* ===== verification/Controller.thy ===== *)
theory Controller
  imports Provision
begin

text \<open>
  The access-control state machine of \<open>src/src/main.cpp\<close>: \<open>setup()\<close>
  (lines 67--95) and \<open>loop()\<close> (lines 97--159), with the reset path
  \<open>resetEEPROM()\<close> (lines 161--166) whose \<open>jmp 0\<close> restarts the program.  The
  controller state \<open>ctrl\<close> extends the store record with the globals \<open>addMode\<close>
  and \<open>lastReadTime\<close> (an \<open>unsigned long\<close>, a \<open>32 word\<close>).  One iteration of
  \<open>loop()\<close> takes the clock readings and the reader's answer as input and returns
  either the next state or a restart with the EEPROM as it was left, together with
  the relay writes, delays and console lines it produced.  The system step
  \<open>sys_step\<close> runs \<open>setup()\<close> again after a restart; \<open>reachable_from\<close> is the
  set of states a device can reach from a power-on with a given EEPROM.  Besides the
  invariant of the reachable states and one lemma per branch, the theory proves
  progress (a stored card is granted within two presentations), that enrollment is
  single-shot, and the bound on the time an iteration spends in \<open>delay()\<close>.
\<close>

subsection \<open>State, inputs and outputs\<close>

record ctrl = store +
  addMode :: bool
  lastReadTime :: "32 word"

text \<open>What an iteration does besides changing the state: a console line, a
  \<open>digitalWrite(relayPin, level)\<close> (\<open>True\<close> is \<open>HIGH\<close>; the relay module is
  active-low, so \<open>LOW\<close> energises it), or a \<open>delay(ms)\<close>.\<close>

datatype event = Log diag | RelayWrite bool | Delay nat

definition masterUID :: uid where
  "masterUID = ''D3EC2B28''"

definition eepromResetUID :: uid where
  "eepromResetUID = ''B2C82C1B''"

definition debounceDelay :: "32 word" where
  "debounceDelay = 3000"

text \<open>The inputs of one iteration: \<open>millis()\<close> at the debounce test (line 99), the
  UID bytes \<open>readPassiveTargetID\<close> delivered (\<open>None\<close> when it failed), and
  \<open>millis()\<close> when the read is recorded (line 112).\<close>

record loop_in =
  t_loop :: "32 word"
  card :: "byte list option"
  t_read :: "32 word"

text \<open>An iteration either returns to the main loop or, after \<open>resetEEPROM()\<close>,
  jumps to the reset vector with the EEPROM it left.\<close>

datatype loop_out = Continue ctrl | Restart eeprom

datatype sys = Halted | Running ctrl

subsection \<open>One iteration of \<open>loop()\<close>\<close>

text \<open>The acknowledgement of the master card (lines 126--132).\<close>

definition master_feedback :: "event list" where
  "master_feedback =
     [RelayWrite False, Delay 1000, RelayWrite True, Delay 1000, RelayWrite False, Delay 1000,
      RelayWrite True]"

text \<open>Lines 112--157: a card was read at time \<open>now\<close>.\<close>

definition handle_card :: "32 word \<Rightarrow> byte list \<Rightarrow> ctrl \<Rightarrow> loop_out \<times> event list" where
  "handle_card now bs c =
     (let c1 = c\<lparr>lastReadTime := now\<rparr>;
          content = encode_uid bs;
          ev = [Log (MsgCardRead content)]
      in if content = masterUID then
           (Continue (c1\<lparr>addMode := True\<rparr>), ev @ Log MsgMasterCard # master_feedback)
         else if content = eepromResetUID then
           (Restart (resetEEPROM (ee c1)), ev @ [Log MsgEepromReset])
         else if addMode c1 then
           (Continue ((addUID_state content c1)\<lparr>addMode := False\<rparr>),
            ev @ [Log (MsgNewCard content), Log (addUID_log content c1), Delay 2000])
         else if checkUID content c1 then
           (Continue c1,
            ev @ [Log MsgAccessGranted, RelayWrite False, Delay 3000, RelayWrite True, Delay 2000])
         else (Continue c1, ev @ [Log MsgAccessDenied, Delay 2000]))"

text \<open>Lines 97--159: the debounce test (unsigned, so it survives the wrap of
  \<open>millis()\<close>), then the read.\<close>

definition loop :: "loop_in \<Rightarrow> ctrl \<Rightarrow> loop_out \<times> event list" where
  "loop i c =
     (if t_loop i - lastReadTime c < debounceDelay then (Continue c, [])
      else case card i of
             None \<Rightarrow> (Continue c, [])
           | Some bs \<Rightarrow> handle_card (t_read i) bs c)"

subsection \<open>\<open>setup()\<close> and restarts\<close>

text \<open>Lines 67--95, after the globals got their initial values: no firmware answer
  halts (\<open>while (1);\<close>); otherwise the relay is released, \<open>cardCount\<close> is read from
  byte 0 (unchecked) and the built-in cards are seeded.  Named \<open>setup_sketch\<close>
  because \<open>setup\<close> is an Isabelle keyword.\<close>

definition setup_sketch :: "32 word \<Rightarrow> eeprom \<Rightarrow> sys \<times> event list" where
  "setup_sketch versiondata e =
     (if versiondata = 0 then (Halted, [Log MsgReaderMissing])
      else
        (let c0 = \<lparr>ee = e, cardCount = 0, addMode = False, lastReadTime = 0\<rparr>;
             c1 = c0\<lparr>cardCount := unat (e 0)\<rparr>;
             (c2, log) = addPredefinedUIDs c1
         in (Running c2,
             [Log MsgReady, RelayWrite True, Log (MsgCountLoaded (unat (e 0)))] @ map Log log)))"

text \<open>The environment of one step of the device: the inputs of the iteration, and the
  firmware answer \<open>setup()\<close> gets should the iteration restart the program.\<close>

record sys_in =
  loop_input :: loop_in
  fw_version :: "32 word"

fun sys_step :: "sys_in \<Rightarrow> sys \<Rightarrow> sys \<times> event list" where
  "sys_step i Halted = (Halted, [])"
| "sys_step i (Running c) =
     (case loop (loop_input i) c of
        (Continue c', ev) \<Rightarrow> (Running c', ev)
      | (Restart e, ev) \<Rightarrow> (let (s', ev') = setup_sketch (fw_version i) e in (s', ev @ ev')))"

text \<open>The states reachable after power-on with the EEPROM contents \<open>e0\<close>.\<close>

inductive reachable_from :: "eeprom \<Rightarrow> sys \<Rightarrow> bool" for e0 :: eeprom where
  power_on: "reachable_from e0 (fst (setup_sketch v e0))"
| step: "reachable_from e0 s \<Longrightarrow> reachable_from e0 (fst (sys_step i s))"

text \<open>The time the events of an iteration keep the sketch away from the reader: the
  sum of its \<open>delay()\<close> calls.\<close>

definition delay_total :: "event list \<Rightarrow> nat" where
  "delay_total ev = sum_list (map (\<lambda>e. case e of Delay n \<Rightarrow> n | _ \<Rightarrow> 0) ev)"

fun sys_inv :: "sys \<Rightarrow> bool" where
  "sys_inv Halted = True"
| "sys_inv (Running c) = count_inv c"

text \<open>The master and the reset identifier are not in the store of a running device.\<close>

fun no_special :: "sys \<Rightarrow> bool" where
  "no_special Halted = True"
| "no_special (Running c) \<longleftrightarrow> masterUID \<notin> set (stored_uids c) \<and> eepromResetUID \<notin> set (stored_uids c)"

subsection \<open>Lemmas on the controller state\<close>

lemma count_inv_ctrl_upd [simp]:
  "count_inv (c\<lparr>addMode := b\<rparr>) = count_inv c"
  "count_inv (c\<lparr>lastReadTime := t\<rparr>) = count_inv c"
  by (simp_all add: count_inv_def)

lemma addUID_state_ctrl_fields [simp]:
  "addMode (addUID_state u c) = addMode c"
  "lastReadTime (addUID_state u c) = lastReadTime c"
  using addUID_state_cases [of u c] by auto

lemma addUID_state_time:
  "addUID_state u (c\<lparr>lastReadTime := t\<rparr>) = (addUID_state u c)\<lparr>lastReadTime := t\<rparr>"
  by (auto simp: addUID_state_def addUID_def checkUID_scan)

lemma checkUID_ctrl_upd [simp]:
  "checkUID u (c\<lparr>addMode := b\<rparr>) = checkUID u c"
  "checkUID u (c\<lparr>lastReadTime := t\<rparr>) = checkUID u c"
  by (simp_all add: checkUID_scan)

lemma stored_uids_ctrl_upd [simp]:
  "stored_uids (c\<lparr>addMode := b\<rparr>) = stored_uids c"
  "stored_uids (c\<lparr>lastReadTime := t\<rparr>) = stored_uids c"
  by (simp_all add: stored_uids_def)

text \<open>The branches of \<open>handle_card\<close>, one lemma each.\<close>

lemma handle_card_master:
  "encode_uid bs = masterUID \<Longrightarrow>
   handle_card now bs c = (Continue (c\<lparr>lastReadTime := now, addMode := True\<rparr>),
     [Log (MsgCardRead masterUID), Log MsgMasterCard] @ master_feedback)"
  by (simp add: handle_card_def)

lemma handle_card_reset:
  "encode_uid bs = eepromResetUID \<Longrightarrow>
   handle_card now bs c = (Restart ((ee c)(0 := 0)), [Log (MsgCardRead eepromResetUID), Log MsgEepromReset])"
  by (simp add: handle_card_def resetEEPROM_def masterUID_def eepromResetUID_def)

lemma handle_card_enroll:
  "encode_uid bs \<noteq> masterUID \<Longrightarrow> encode_uid bs \<noteq> eepromResetUID \<Longrightarrow> addMode c \<Longrightarrow>
   handle_card now bs c =
     (Continue ((addUID_state (encode_uid bs) c)\<lparr>lastReadTime := now, addMode := False\<rparr>),
      [Log (MsgCardRead (encode_uid bs)), Log (MsgNewCard (encode_uid bs)),
       Log (addUID_log (encode_uid bs) (c\<lparr>lastReadTime := now\<rparr>)), Delay 2000])"
  by (simp add: handle_card_def addUID_state_time Let_def)

lemma handle_card_normal:
  "encode_uid bs \<noteq> masterUID \<Longrightarrow> encode_uid bs \<noteq> eepromResetUID \<Longrightarrow> \<not> addMode c \<Longrightarrow>
   handle_card now bs c =
     (Continue (c\<lparr>lastReadTime := now\<rparr>),
      Log (MsgCardRead (encode_uid bs)) #
      (if checkUID (encode_uid bs) c
       then [Log MsgAccessGranted, RelayWrite False, Delay 3000, RelayWrite True, Delay 2000]
       else [Log MsgAccessDenied, Delay 2000]))"
  by (simp add: handle_card_def)

lemma handle_card_continue:
  "handle_card now bs c = (Continue c', ev) \<Longrightarrow> lastReadTime c' = now \<and> (count_inv c \<longrightarrow> count_inv c')"
  by (auto simp: handle_card_def Let_def addUID_state_time addUID_count_inv split: if_splits)

lemma handle_card_restart: "handle_card now bs c = (Restart e, ev) \<Longrightarrow> e = (ee c)(0 := 0)"
  by (auto simp: handle_card_def Let_def resetEEPROM_def split: if_splits)

lemma loop_window: "t_loop i - lastReadTime c < debounceDelay \<Longrightarrow> loop i c = (Continue c, [])"
  by (simp add: loop_def)

lemma loop_read:
  "\<not> t_loop i - lastReadTime c < debounceDelay \<Longrightarrow> card i = Some bs \<Longrightarrow>
   loop i c = handle_card (t_read i) bs c"
  by (simp add: loop_def)

lemma loop_continue: "loop i c = (Continue c', ev) \<Longrightarrow> count_inv c \<Longrightarrow> count_inv c'"
  by (auto simp: loop_def dest: handle_card_continue split: if_splits option.splits)

lemma loop_restart: "loop i c = (Restart e, ev) \<Longrightarrow> e = (ee c)(0 := 0)"
  by (auto simp: loop_def dest: handle_card_restart split: if_splits option.splits)

lemma seed_loop_ctrl_fields [simp]:
  "addMode (fst (seed_loop ps c)) = addMode c"
  "lastReadTime (fst (seed_loop ps c)) = lastReadTime c"
  by (induction ps arbitrary: c) (simp_all add: seed_loop_state)

subsection \<open>Boot and the reachable states\<close>

lemma setup_sketch_running:
  "v \<noteq> 0 \<Longrightarrow>
   fst (setup_sketch v e) =
     Running (fst (seed_loop predefinedUIDs \<lparr>ee = e, cardCount = unat (e 0), addMode = False, lastReadTime = 0\<rparr>))"
  by (simp add: setup_sketch_def addPredefinedUIDs_def split_def Let_def)

lemma setup_sketch_inv: "unat (e 0) \<le> maxCards \<Longrightarrow> sys_inv (fst (setup_sketch v e))"
proof (cases "v = 0")
  case True
  then show ?thesis by (simp add: setup_sketch_def)
next
  case False
  assume "unat (e 0) \<le> maxCards"
  then have "count_inv \<lparr>ee = e, cardCount = unat (e 0), addMode = False, lastReadTime = 0\<rparr>"
    by (simp add: count_inv_def)
  with False show ?thesis by (simp add: setup_sketch_running seed_loop_count_inv)
qed

lemma sys_step_inv: "sys_inv s \<Longrightarrow> sys_inv (fst (sys_step i s))"
proof (cases s)
  case Halted
  then show ?thesis by simp
next
  case (Running c)
  assume inv: "sys_inv s"
  show ?thesis
  proof (cases "loop (loop_input i) c")
    case (Pair out ev)
    show ?thesis
    proof (cases out)
      case (Continue c')
      with Pair Running inv show ?thesis by (simp add: loop_continue)
    next
      case (Restart e)
      with Pair have "e = (ee c)(0 := 0)" by (simp add: loop_restart)
      then have "sys_inv (fst (setup_sketch (fw_version i) e))"
        by (simp add: setup_sketch_inv)
      with Pair Running Restart show ?thesis by (cases "setup_sketch (fw_version i) e") simp
    qed
  qed
qed

lemma loop_stored:
  "loop i c = (Continue c', ev) \<Longrightarrow> x \<in> set (stored_uids c') \<Longrightarrow>
   x \<in> set (stored_uids c) \<or>
   (\<exists>bs. card i = Some bs \<and> x = stored_form (encode_uid bs) \<and>
         encode_uid bs \<noteq> masterUID \<and> encode_uid bs \<noteq> eepromResetUID)"
  by (auto simp: loop_def handle_card_def Let_def addUID_state_time dest: addUID_state_set
      split: if_splits option.splits)

lemma specials_not_predefined: "masterUID \<notin> set predefinedUIDs" "eepromResetUID \<notin> set predefinedUIDs"
  by (simp_all add: predefinedUIDs_def masterUID_def eepromResetUID_def)

lemma specials_short: "length masterUID < UIDLength" "length eepromResetUID < UIDLength"
  by (simp_all add: masterUID_def eepromResetUID_def UIDLength_def)

lemma loop_keeps_absent:
  assumes l: "loop i c = (Continue c', ev)" and out: "w \<notin> set (stored_uids c)"
    and sp: "w = masterUID \<or> w = eepromResetUID"
  shows "w \<notin> set (stored_uids c')"
proof
  assume "w \<in> set (stored_uids c')"
  with l out obtain bs where w: "w = stored_form (encode_uid bs)"
    and nm: "encode_uid bs \<noteq> masterUID" and nr: "encode_uid bs \<noteq> eepromResetUID"
    using loop_stored by blast
  from sp specials_short have "length w < UIDLength" by auto
  with w have "encode_uid bs = w" using stored_form_short_eq encode_uid_no_nul by metis
  with sp nm nr show False by blast
qed

lemma setup_stored:
  "fst (setup_sketch v e) = Running c \<Longrightarrow> set (stored_uids c) \<subseteq> set (persisted_uids e) \<union> set predefinedUIDs"
proof -
  assume r: "fst (setup_sketch v e) = Running c"
  then have v: "v \<noteq> 0" by (auto simp: setup_sketch_def)
  let ?c1 = "\<lparr>ee = e, cardCount = unat (e 0), addMode = False, lastReadTime = 0\<rparr>"
  from r v have c: "c = fst (seed_loop predefinedUIDs ?c1)" by (simp add: setup_sketch_running)
  have "stored_uids ?c1 = persisted_uids e" by (simp add: stored_uids_def persisted_uids_def)
  with c show ?thesis
    using seed_loop_refines [OF predefined_valid] abs_seed_set by metis
qed

lemma setup_no_special:
  "masterUID \<notin> set (persisted_uids e) \<Longrightarrow> eepromResetUID \<notin> set (persisted_uids e) \<Longrightarrow>
   no_special (fst (setup_sketch v e))"
  using setup_stored [of v e] specials_not_predefined
  by (cases "fst (setup_sketch v e)") auto

lemma sys_step_no_special: "no_special s \<Longrightarrow> no_special (fst (sys_step i s))"
proof (cases s)
  case Halted
  then show ?thesis by simp
next
  case (Running c)
  assume ns: "no_special s"
  obtain out ev where l: "loop (loop_input i) c = (out, ev)" by fastforce
  show ?thesis
  proof (cases out)
    case (Continue c')
    from l Continue have l': "loop (loop_input i) c = (Continue c', ev)" by simp
    from ns Running have "masterUID \<notin> set (stored_uids c)" "eepromResetUID \<notin> set (stored_uids c)" by simp_all
    then have "masterUID \<notin> set (stored_uids c')" "eepromResetUID \<notin> set (stored_uids c')"
      using loop_keeps_absent [OF l'] by blast+
    with Running l Continue show ?thesis by simp
  next
    case (Restart e)
    with l have "e = (ee c)(0 := 0)" by (simp add: loop_restart)
    then have "no_special (fst (setup_sketch (fw_version i) e))" by (simp add: setup_no_special)
    with Running l Restart show ?thesis by (cases "setup_sketch (fw_version i) e") simp
  qed
qed

text \<open>C5: from a power-on with a count byte of at most \<open>maxCards\<close>, every state the
  device reaches (through any inputs, restarts by the reset card included) keeps the
  count in range and persisted in byte 0.\<close>

theorem reachable_count_inv:
  "reachable_from e0 s \<Longrightarrow> unat (e0 0) \<le> maxCards \<Longrightarrow> sys_inv s"
proof (induction rule: reachable_from.induct)
  case (power_on v)
  then show ?case by (rule setup_sketch_inv)
next
  case (step s i)
  then show ?case by (simp add: sys_step_inv)
qed

theorem reachable_count_inv_witness:
  "reachable_from (\<lambda>_. 0) (fst (setup_sketch 1 (\<lambda>_. 0))) \<and> unat ((\<lambda>_. 0 :: byte) 0) \<le> maxCards \<and>
   sys_inv (fst (setup_sketch 1 (\<lambda>_. 0)))"
proof -
  have r: "reachable_from (\<lambda>_. 0) (fst (setup_sketch 1 (\<lambda>_. 0)))" by (rule reachable_from.power_on)
  have b: "unat ((\<lambda>_. 0 :: byte) 0) \<le> maxCards" by (simp add: maxCards_def)
  show ?thesis using r b reachable_count_inv [OF r b] by simp
qed

subsection \<open>Debounce\<close>

text \<open>C6: two reads of one presentation within the window give one transition: after
  a card was handled at \<open>t_read\<close>, an iteration less than 3000 ms later (modulo the
  wrap of \<open>millis()\<close>) leaves the state as it is and produces nothing.\<close>

theorem loop_debounce_once:
  assumes first: "loop i1 c = (Continue c1, ev1)" and rd: "card i1 = Some bs"
    and open_: "\<not> t_loop i1 - lastReadTime c < debounceDelay"
    and soon: "t_loop i2 - t_read i1 < debounceDelay"
  shows "loop i2 c1 = (Continue c1, [])"
proof -
  from first open_ rd have "handle_card (t_read i1) bs c = (Continue c1, ev1)"
    by (simp add: loop_read)
  then have "lastReadTime c1 = t_read i1" by (simp add: handle_card_continue)
  with soon show ?thesis by (simp add: loop_window)
qed

definition ctrl0 :: ctrl where
  "ctrl0 = \<lparr>ee = (\<lambda>_. 0), cardCount = 0, addMode = False, lastReadTime = 0\<rparr>"

lemma encode_examples:
  "encode_uid [0x11, 0x22, 0x33, 0x44] = ''11223344''"
  "encode_uid [0xD3, 0xEC, 0x2B, 0x28] = masterUID"
  "encode_uid [0xB2, 0xC8, 0x2C, 0x1B] = eepromResetUID"
  by (simp_all add: codec_eval_simps masterUID_def eepromResetUID_def)

theorem loop_debounce_once_witness:
  "loop \<lparr>t_loop = 5000, card = Some [0x11, 0x22, 0x33, 0x44], t_read = 5001\<rparr> ctrl0 =
     (Continue (ctrl0\<lparr>lastReadTime := 5001\<rparr>), [Log (MsgCardRead ''11223344''), Log MsgAccessDenied, Delay 2000]) \<and>
   card \<lparr>t_loop = 5000, card = Some [0x11, 0x22, 0x33, 0x44 :: byte], t_read = 5001 :: 32 word\<rparr> =
     Some [0x11, 0x22, 0x33, 0x44] \<and>
   \<not> t_loop \<lparr>t_loop = 5000 :: 32 word, card = Some [0x11, 0x22, 0x33, 0x44 :: byte], t_read = 5001 :: 32 word\<rparr>
       - lastReadTime ctrl0 < debounceDelay \<and>
   t_loop \<lparr>t_loop = 7000 :: 32 word, card = Some [0x11, 0x22, 0x33, 0x44 :: byte], t_read = 7001 :: 32 word\<rparr>
     - t_read \<lparr>t_loop = 5000 :: 32 word, card = Some [0x11, 0x22, 0x33, 0x44 :: byte], t_read = 5001 :: 32 word\<rparr>
     < debounceDelay \<and>
   loop \<lparr>t_loop = 7000, card = Some [0x11, 0x22, 0x33, 0x44], t_read = 7001\<rparr> (ctrl0\<lparr>lastReadTime := 5001\<rparr>) =
     (Continue (ctrl0\<lparr>lastReadTime := 5001\<rparr>), [])"
proof -
  let ?i1 = "\<lparr>t_loop = 5000 :: 32 word, card = Some [0x11, 0x22, 0x33, 0x44 :: byte], t_read = 5001 :: 32 word\<rparr>"
  let ?i2 = "\<lparr>t_loop = 7000 :: 32 word, card = Some [0x11, 0x22, 0x33, 0x44 :: byte], t_read = 7001 :: 32 word\<rparr>"
  have o: "\<not> t_loop ?i1 - lastReadTime ctrl0 < debounceDelay" by (simp add: ctrl0_def debounceDelay_def)
  have r: "card ?i1 = Some [0x11, 0x22, 0x33, 0x44]" by simp
  have nm: "encode_uid [0x11, 0x22, 0x33, 0x44] \<noteq> masterUID"
    and nr: "encode_uid [0x11, 0x22, 0x33, 0x44] \<noteq> eepromResetUID"
    by (simp_all add: encode_examples masterUID_def eepromResetUID_def)
  have nc: "\<not> checkUID ''11223344'' ctrl0" by (simp add: ctrl0_def checkUID_scan)
  have f: "loop ?i1 ctrl0 =
     (Continue (ctrl0\<lparr>lastReadTime := 5001\<rparr>), [Log (MsgCardRead ''11223344''), Log MsgAccessDenied, Delay 2000])"
    using o r nm nr nc by (simp add: loop_read handle_card_normal encode_examples ctrl0_def)
  have w: "t_loop ?i2 - t_read ?i1 < debounceDelay" by (simp add: debounceDelay_def)
  show ?thesis using f r o w loop_debounce_once [OF f r o w] by simp
qed

subsection \<open>The branches of an iteration\<close>

text \<open>C27: the master card arms enrollment (whatever the mode was), leaves the store
  alone, and acknowledges with the relay energised twice (two \<open>LOW\<close> writes), where
  the spec asks for three pulses.\<close>

theorem loop_master:
  assumes open_: "\<not> t_loop i - lastReadTime c < debounceDelay" and rd: "card i = Some bs"
    and m: "encode_uid bs = masterUID"
  shows "\<exists>c' ev. loop i c = (Continue c', ev) \<and> addMode c' \<and> ee c' = ee c \<and>
           cardCount c' = cardCount c \<and> length (filter ((=) (RelayWrite False)) ev) = 2"
  using open_ rd m by (simp add: loop_read handle_card_master master_feedback_def)

theorem loop_master_witness:
  "\<not> t_loop \<lparr>t_loop = 5000 :: 32 word, card = Some [0xD3, 0xEC, 0x2B, 0x28 :: byte], t_read = 5001 :: 32 word\<rparr>
       - lastReadTime ctrl0 < debounceDelay \<and>
   card \<lparr>t_loop = 5000 :: 32 word, card = Some [0xD3, 0xEC, 0x2B, 0x28 :: byte], t_read = 5001 :: 32 word\<rparr> =
     Some [0xD3, 0xEC, 0x2B, 0x28] \<and>
   encode_uid [0xD3, 0xEC, 0x2B, 0x28] = masterUID \<and>
   (\<exists>c' ev. loop \<lparr>t_loop = 5000, card = Some [0xD3, 0xEC, 0x2B, 0x28], t_read = 5001\<rparr> ctrl0 =
       (Continue c', ev) \<and> addMode c' \<and> ee c' = ee ctrl0 \<and> cardCount c' = cardCount ctrl0 \<and>
       length (filter ((=) (RelayWrite False)) ev) = 2)"
proof -
  let ?i = "\<lparr>t_loop = 5000 :: 32 word, card = Some [0xD3, 0xEC, 0x2B, 0x28 :: byte], t_read = 5001 :: 32 word\<rparr>"
  have o: "\<not> t_loop ?i - lastReadTime ctrl0 < debounceDelay" by (simp add: ctrl0_def debounceDelay_def)
  have r: "card ?i = Some [0xD3, 0xEC, 0x2B, 0x28]" by simp
  have m: "encode_uid [0xD3, 0xEC, 0x2B, 0x28] = masterUID" by (simp add: encode_examples)
  show ?thesis using o r m loop_master [OF o r m] by blast
qed

text \<open>C17: the reset card, in either mode, ends the iteration with a restart after a
  single EEPROM write: 0 into the count byte.\<close>

theorem loop_reset:
  assumes open_: "\<not> t_loop i - lastReadTime c < debounceDelay" and rd: "card i = Some bs"
    and r: "encode_uid bs = eepromResetUID"
  shows "\<exists>ev. loop i c = (Restart ((ee c)(0 := 0)), ev)"
  using open_ rd r by (simp add: loop_read handle_card_reset)

theorem loop_reset_witness:
  "\<not> t_loop \<lparr>t_loop = 5000 :: 32 word, card = Some [0xB2, 0xC8, 0x2C, 0x1B :: byte], t_read = 5001 :: 32 word\<rparr>
       - lastReadTime (ctrl0\<lparr>addMode := True\<rparr>) < debounceDelay \<and>
   card \<lparr>t_loop = 5000 :: 32 word, card = Some [0xB2, 0xC8, 0x2C, 0x1B :: byte], t_read = 5001 :: 32 word\<rparr> =
     Some [0xB2, 0xC8, 0x2C, 0x1B] \<and>
   encode_uid [0xB2, 0xC8, 0x2C, 0x1B] = eepromResetUID \<and>
   (\<exists>ev. loop \<lparr>t_loop = 5000, card = Some [0xB2, 0xC8, 0x2C, 0x1B], t_read = 5001\<rparr> (ctrl0\<lparr>addMode := True\<rparr>) =
       (Restart ((ee (ctrl0\<lparr>addMode := True\<rparr>))(0 := 0)), ev))"
proof -
  let ?i = "\<lparr>t_loop = 5000 :: 32 word, card = Some [0xB2, 0xC8, 0x2C, 0x1B :: byte], t_read = 5001 :: 32 word\<rparr>"
  have o: "\<not> t_loop ?i - lastReadTime (ctrl0\<lparr>addMode := True\<rparr>) < debounceDelay"
    by (simp add: ctrl0_def debounceDelay_def)
  have r: "card ?i = Some [0xB2, 0xC8, 0x2C, 0x1B]" by simp
  have e: "encode_uid [0xB2, 0xC8, 0x2C, 0x1B] = eepromResetUID" by (simp add: encode_examples)
  show ?thesis using o r e loop_reset [OF o r e] by blast
qed

text \<open>C18: enrollment is single-shot: in enrollment mode a card that is neither the
  master nor the reset card is offered to \<open>addUID\<close> and enrollment ends whatever
  \<open>addUID\<close> answered; the store becomes what \<open>addUID\<close> made of it and the relay is
  not touched.\<close>

theorem loop_enroll:
  assumes open_: "\<not> t_loop i - lastReadTime c < debounceDelay" and rd: "card i = Some bs"
    and nm: "encode_uid bs \<noteq> masterUID" and nr: "encode_uid bs \<noteq> eepromResetUID" and am: "addMode c"
  shows "\<exists>c' ev. loop i c = (Continue c', ev) \<and> \<not> addMode c' \<and> lastReadTime c' = t_read i \<and>
           ee c' = ee (addUID_state (encode_uid bs) c) \<and>
           cardCount c' = cardCount (addUID_state (encode_uid bs) c) \<and> RelayWrite False \<notin> set ev"
  using open_ rd nm nr am by (simp add: loop_read handle_card_enroll)

theorem loop_enroll_witness:
  "\<not> t_loop \<lparr>t_loop = 5000 :: 32 word, card = Some [0x11, 0x22, 0x33, 0x44 :: byte], t_read = 5001 :: 32 word\<rparr>
       - lastReadTime (ctrl0\<lparr>addMode := True\<rparr>) < debounceDelay \<and>
   card \<lparr>t_loop = 5000 :: 32 word, card = Some [0x11, 0x22, 0x33, 0x44 :: byte], t_read = 5001 :: 32 word\<rparr> =
     Some [0x11, 0x22, 0x33, 0x44] \<and>
   encode_uid [0x11, 0x22, 0x33, 0x44] \<noteq> masterUID \<and> encode_uid [0x11, 0x22, 0x33, 0x44] \<noteq> eepromResetUID \<and>
   addMode (ctrl0\<lparr>addMode := True\<rparr>) \<and>
   (\<exists>c' ev. loop \<lparr>t_loop = 5000, card = Some [0x11, 0x22, 0x33, 0x44], t_read = 5001\<rparr> (ctrl0\<lparr>addMode := True\<rparr>) =
       (Continue c', ev) \<and> \<not> addMode c' \<and> lastReadTime c' = 5001 \<and>
       ee c' = ee (addUID_state (encode_uid [0x11, 0x22, 0x33, 0x44]) (ctrl0\<lparr>addMode := True\<rparr>)) \<and>
       cardCount c' = cardCount (addUID_state (encode_uid [0x11, 0x22, 0x33, 0x44]) (ctrl0\<lparr>addMode := True\<rparr>)) \<and>
       RelayWrite False \<notin> set ev)"
proof -
  let ?c = "ctrl0\<lparr>addMode := True\<rparr>"
  let ?i = "\<lparr>t_loop = 5000 :: 32 word, card = Some [0x11, 0x22, 0x33, 0x44 :: byte], t_read = 5001 :: 32 word\<rparr>"
  have o: "\<not> t_loop ?i - lastReadTime ?c < debounceDelay" by (simp add: ctrl0_def debounceDelay_def)
  have r: "card ?i = Some [0x11, 0x22, 0x33, 0x44]" by simp
  have nm: "encode_uid [0x11, 0x22, 0x33, 0x44] \<noteq> masterUID"
    and nr: "encode_uid [0x11, 0x22, 0x33, 0x44] \<noteq> eepromResetUID"
    by (simp_all add: encode_examples masterUID_def eepromResetUID_def)
  have am: "addMode ?c" by simp
  show ?thesis using o r nm nr am loop_enroll [OF o r nm nr am] by simp
qed

text \<open>C19: in normal mode a card that is neither master nor reset card leaves the store
  and the mode as they are, and the relay is energised exactly when \<open>checkUID\<close>
  finds the identifier.\<close>

theorem loop_access:
  assumes open_: "\<not> t_loop i - lastReadTime c < debounceDelay" and rd: "card i = Some bs"
    and nm: "encode_uid bs \<noteq> masterUID" and nr: "encode_uid bs \<noteq> eepromResetUID" and na: "\<not> addMode c"
  shows "\<exists>c' ev. loop i c = (Continue c', ev) \<and> ee c' = ee c \<and> cardCount c' = cardCount c \<and>
           \<not> addMode c' \<and> (RelayWrite False \<in> set ev \<longleftrightarrow> checkUID (encode_uid bs) c)"
  using open_ rd nm nr na by (simp add: loop_read handle_card_normal)

theorem loop_access_witness:
  "\<not> t_loop \<lparr>t_loop = 5000 :: 32 word, card = Some [0x11, 0x22, 0x33, 0x44 :: byte], t_read = 5001 :: 32 word\<rparr>
       - lastReadTime ctrl0 < debounceDelay \<and>
   card \<lparr>t_loop = 5000 :: 32 word, card = Some [0x11, 0x22, 0x33, 0x44 :: byte], t_read = 5001 :: 32 word\<rparr> =
     Some [0x11, 0x22, 0x33, 0x44] \<and>
   encode_uid [0x11, 0x22, 0x33, 0x44] \<noteq> masterUID \<and> encode_uid [0x11, 0x22, 0x33, 0x44] \<noteq> eepromResetUID \<and>
   \<not> addMode ctrl0 \<and>
   (\<exists>c' ev. loop \<lparr>t_loop = 5000, card = Some [0x11, 0x22, 0x33, 0x44], t_read = 5001\<rparr> ctrl0 =
       (Continue c', ev) \<and> ee c' = ee ctrl0 \<and> cardCount c' = cardCount ctrl0 \<and> \<not> addMode c' \<and>
       (RelayWrite False \<in> set ev \<longleftrightarrow> checkUID (encode_uid [0x11, 0x22, 0x33, 0x44]) ctrl0))"
proof -
  let ?i = "\<lparr>t_loop = 5000 :: 32 word, card = Some [0x11, 0x22, 0x33, 0x44 :: byte], t_read = 5001 :: 32 word\<rparr>"
  have o: "\<not> t_loop ?i - lastReadTime ctrl0 < debounceDelay" by (simp add: ctrl0_def debounceDelay_def)
  have r: "card ?i = Some [0x11, 0x22, 0x33, 0x44]" by simp
  have nm: "encode_uid [0x11, 0x22, 0x33, 0x44] \<noteq> masterUID"
    and nr: "encode_uid [0x11, 0x22, 0x33, 0x44] \<noteq> eepromResetUID"
    by (simp_all add: encode_examples masterUID_def eepromResetUID_def)
  have na: "\<not> addMode ctrl0" by (simp add: ctrl0_def)
  show ?thesis using o r nm nr na loop_access [OF o r nm nr na] by simp
qed

subsection \<open>Boot\<close>

text \<open>C26: \<open>setup()\<close> trusts the count byte: with a value above \<open>maxCards\<close> (a
  fresh EEPROM reads 255) it keeps it as \<open>cardCount\<close>, every built-in card is refused
  for capacity, and the device runs with the count invariant broken, where the spec
  asks for an out-of-range count to be treated as 0.\<close>

theorem setup_no_clamp:
  assumes v: "v \<noteq> 0" and big: "maxCards < unat (e 0)"
  shows "\<exists>c. fst (setup_sketch v e) = Running c \<and> cardCount c = unat (e 0) \<and> ee c = e \<and> \<not> count_inv c"
  using v big by (simp add: setup_sketch_running seed_loop_full count_inv_def)

theorem setup_no_clamp_witness:
  "(1 :: 32 word) \<noteq> 0 \<and> maxCards < unat ((\<lambda>_. 255 :: byte) 0) \<and>
   (\<exists>c. fst (setup_sketch 1 (\<lambda>_. 255)) = Running c \<and> cardCount c = 255 \<and> ee c = (\<lambda>_. 255) \<and>
        \<not> count_inv c)"
proof -
  have v: "(1 :: 32 word) \<noteq> 0" by simp
  have b: "maxCards < unat ((\<lambda>_. 255 :: byte) 0)" by (simp add: maxCards_def)
  show ?thesis using v b setup_no_clamp [OF v b] by simp
qed


subsection \<open>Progress and response\<close>

text \<open>C10: a stored card is never locked out: presented twice, each time outside the
  debounce window of the read before, it energises the relay at the first
  presentation or at the second, whatever the mode (in enrollment mode the first
  presentation is consumed by \<open>addUID\<close>, which refuses it as present).\<close>

theorem stored_card_granted:
  assumes st: "checkUID (encode_uid bs) c"
    and nm: "encode_uid bs \<noteq> masterUID" and nr: "encode_uid bs \<noteq> eepromResetUID"
    and rd1: "card i1 = Some bs" and o1: "\<not> t_loop i1 - lastReadTime c < debounceDelay"
    and rd2: "card i2 = Some bs" and o2: "\<not> t_loop i2 - t_read i1 < debounceDelay"
  shows "\<exists>c1 ev1. loop i1 c = (Continue c1, ev1) \<and>
           (RelayWrite False \<in> set ev1 \<or>
            (\<exists>c2 ev2. loop i2 c1 = (Continue c2, ev2) \<and> RelayWrite False \<in> set ev2))"
proof (cases "addMode c")
  case False
  with st nm nr rd1 o1 show ?thesis by (simp add: loop_read handle_card_normal)
next
  case True
  let ?c1 = "c\<lparr>lastReadTime := t_read i1, addMode := False\<rparr>"
  have keep: "addUID_state (encode_uid bs) c = c" using st by (rule addUID_state_present)
  obtain ev1 where l1: "loop i1 c = (Continue ?c1, ev1)"
    using True nm nr rd1 o1 by (simp add: loop_read handle_card_enroll keep)
  have "\<not> t_loop i2 - lastReadTime ?c1 < debounceDelay" using o2 by simp
  with st nm nr rd2 have "\<exists>c2 ev2. loop i2 ?c1 = (Continue c2, ev2) \<and> RelayWrite False \<in> set ev2"
    by (simp add: loop_read handle_card_normal)
  with l1 show ?thesis by blast
qed

theorem stored_card_granted_witness:
  "checkUID (encode_uid [0x11, 0x22, 0x33, 0x44]) ((addUID_state ''11223344'' ctrl0)\<lparr>addMode := True\<rparr>) \<and>
   encode_uid [0x11, 0x22, 0x33, 0x44] \<noteq> masterUID \<and> encode_uid [0x11, 0x22, 0x33, 0x44] \<noteq> eepromResetUID \<and>
   card \<lparr>t_loop = 5000 :: 32 word, card = Some [0x11, 0x22, 0x33, 0x44 :: byte], t_read = 5001 :: 32 word\<rparr> =
     Some [0x11, 0x22, 0x33, 0x44] \<and>
   \<not> t_loop \<lparr>t_loop = 5000 :: 32 word, card = Some [0x11, 0x22, 0x33, 0x44 :: byte], t_read = 5001 :: 32 word\<rparr>
       - lastReadTime ((addUID_state ''11223344'' ctrl0)\<lparr>addMode := True\<rparr>) < debounceDelay \<and>
   card \<lparr>t_loop = 9000 :: 32 word, card = Some [0x11, 0x22, 0x33, 0x44 :: byte], t_read = 9001 :: 32 word\<rparr> =
     Some [0x11, 0x22, 0x33, 0x44] \<and>
   \<not> t_loop \<lparr>t_loop = 9000 :: 32 word, card = Some [0x11, 0x22, 0x33, 0x44 :: byte], t_read = 9001 :: 32 word\<rparr>
       - t_read \<lparr>t_loop = 5000 :: 32 word, card = Some [0x11, 0x22, 0x33, 0x44 :: byte], t_read = 5001 :: 32 word\<rparr>
       < debounceDelay \<and>
   (\<exists>c1 ev1. loop \<lparr>t_loop = 5000, card = Some [0x11, 0x22, 0x33, 0x44], t_read = 5001\<rparr>
                 ((addUID_state ''11223344'' ctrl0)\<lparr>addMode := True\<rparr>) = (Continue c1, ev1) \<and>
      (RelayWrite False \<in> set ev1 \<or>
       (\<exists>c2 ev2. loop \<lparr>t_loop = 9000, card = Some [0x11, 0x22, 0x33, 0x44], t_read = 9001\<rparr> c1 = (Continue c2, ev2) \<and>
                 RelayWrite False \<in> set ev2)))"
proof -
  let ?c = "(addUID_state ''11223344'' ctrl0)\<lparr>addMode := True\<rparr>"
  let ?i1 = "\<lparr>t_loop = 5000 :: 32 word, card = Some [0x11, 0x22, 0x33, 0x44 :: byte], t_read = 5001 :: 32 word\<rparr>"
  let ?i2 = "\<lparr>t_loop = 9000 :: 32 word, card = Some [0x11, 0x22, 0x33, 0x44 :: byte], t_read = 9001 :: 32 word\<rparr>"
  have st: "checkUID (encode_uid [0x11, 0x22, 0x33, 0x44]) ?c"
    unfolding encode_examples by code_simp
  have nm: "encode_uid [0x11, 0x22, 0x33, 0x44] \<noteq> masterUID"
    and nr: "encode_uid [0x11, 0x22, 0x33, 0x44] \<noteq> eepromResetUID"
    by (simp_all add: encode_examples masterUID_def eepromResetUID_def)
  have rd1: "card ?i1 = Some [0x11, 0x22, 0x33, 0x44]" and rd2: "card ?i2 = Some [0x11, 0x22, 0x33, 0x44]"
    by simp_all
  have o1: "\<not> t_loop ?i1 - lastReadTime ?c < debounceDelay" by (simp add: ctrl0_def debounceDelay_def)
  have o2: "\<not> t_loop ?i2 - t_read ?i1 < debounceDelay" by (simp add: debounceDelay_def)
  show ?thesis using st nm nr rd1 o1 rd2 o2 stored_card_granted [OF st nm nr rd1 o1 rd2 o2] by blast
qed

text \<open>C12: enrollment is single-shot: after the master card, the next card that is
  neither master nor reset card is offered to \<open>addUID\<close> and ends enrollment, and
  the card after it is evaluated in normal mode: it is not enrolled, the store is
  unchanged, and the relay is energised exactly when it is stored.\<close>

theorem enroll_single_shot:
  assumes rd1: "card i1 = Some bm" and m: "encode_uid bm = masterUID"
    and o1: "\<not> t_loop i1 - lastReadTime c < debounceDelay"
    and rd2: "card i2 = Some bx" and xm: "encode_uid bx \<noteq> masterUID" and xr: "encode_uid bx \<noteq> eepromResetUID"
    and o2: "\<not> t_loop i2 - t_read i1 < debounceDelay"
    and rd3: "card i3 = Some bz" and zm: "encode_uid bz \<noteq> masterUID" and zr: "encode_uid bz \<noteq> eepromResetUID"
    and o3: "\<not> t_loop i3 - t_read i2 < debounceDelay"
  shows "\<exists>c1 c2 c3 ev1 ev2 ev3.
           loop i1 c = (Continue c1, ev1) \<and> addMode c1 \<and>
           loop i2 c1 = (Continue c2, ev2) \<and> \<not> addMode c2 \<and> Log (MsgNewCard (encode_uid bx)) \<in> set ev2 \<and>
           loop i3 c2 = (Continue c3, ev3) \<and> \<not> addMode c3 \<and> ee c3 = ee c2 \<and> cardCount c3 = cardCount c2 \<and>
           Log (MsgNewCard (encode_uid bz)) \<notin> set ev3 \<and>
           (RelayWrite False \<in> set ev3 \<longleftrightarrow> checkUID (encode_uid bz) c2)"
proof -
  let ?c1 = "c\<lparr>lastReadTime := t_read i1, addMode := True\<rparr>"
  let ?c2 = "(addUID_state (encode_uid bx) ?c1)\<lparr>lastReadTime := t_read i2, addMode := False\<rparr>"
  have l1: "loop i1 c = (Continue ?c1, [Log (MsgCardRead masterUID), Log MsgMasterCard] @ master_feedback)"
    using o1 rd1 m by (simp add: loop_read handle_card_master)
  have "\<not> t_loop i2 - lastReadTime ?c1 < debounceDelay" using o2 by simp
  then obtain ev2 where l2: "loop i2 ?c1 = (Continue ?c2, ev2)" and n2: "Log (MsgNewCard (encode_uid bx)) \<in> set ev2"
    using rd2 xm xr by (simp add: loop_read handle_card_enroll)
  have "\<not> t_loop i3 - lastReadTime ?c2 < debounceDelay" using o3 by simp
  then have "\<exists>c3 ev3. loop i3 ?c2 = (Continue c3, ev3) \<and> \<not> addMode c3 \<and> ee c3 = ee ?c2 \<and>
      cardCount c3 = cardCount ?c2 \<and> Log (MsgNewCard (encode_uid bz)) \<notin> set ev3 \<and>
      (RelayWrite False \<in> set ev3 \<longleftrightarrow> checkUID (encode_uid bz) ?c2)"
    using rd3 zm zr by (simp add: loop_read handle_card_normal)
  with l1 l2 n2 show ?thesis by fastforce
qed

theorem enroll_single_shot_witness:
  "card \<lparr>t_loop = 5000 :: 32 word, card = Some [0xD3, 0xEC, 0x2B, 0x28 :: byte], t_read = 5001 :: 32 word\<rparr> =
     Some [0xD3, 0xEC, 0x2B, 0x28] \<and>
   encode_uid [0xD3, 0xEC, 0x2B, 0x28] = masterUID \<and>
   \<not> t_loop \<lparr>t_loop = 5000 :: 32 word, card = Some [0xD3, 0xEC, 0x2B, 0x28 :: byte], t_read = 5001 :: 32 word\<rparr>
       - lastReadTime ctrl0 < debounceDelay \<and>
   card \<lparr>t_loop = 9000 :: 32 word, card = Some [0x11, 0x22, 0x33, 0x44 :: byte], t_read = 9001 :: 32 word\<rparr> =
     Some [0x11, 0x22, 0x33, 0x44] \<and>
   encode_uid [0x11, 0x22, 0x33, 0x44] \<noteq> masterUID \<and> encode_uid [0x11, 0x22, 0x33, 0x44] \<noteq> eepromResetUID \<and>
   \<not> t_loop \<lparr>t_loop = 9000 :: 32 word, card = Some [0x11, 0x22, 0x33, 0x44 :: byte], t_read = 9001 :: 32 word\<rparr>
       - t_read \<lparr>t_loop = 5000 :: 32 word, card = Some [0xD3, 0xEC, 0x2B, 0x28 :: byte], t_read = 5001 :: 32 word\<rparr>
       < debounceDelay \<and>
   card \<lparr>t_loop = 13000 :: 32 word, card = Some [0x11, 0x22, 0x33, 0x44 :: byte], t_read = 13001 :: 32 word\<rparr> =
     Some [0x11, 0x22, 0x33, 0x44] \<and>
   \<not> t_loop \<lparr>t_loop = 13000 :: 32 word, card = Some [0x11, 0x22, 0x33, 0x44 :: byte], t_read = 13001 :: 32 word\<rparr>
       - t_read \<lparr>t_loop = 9000 :: 32 word, card = Some [0x11, 0x22, 0x33, 0x44 :: byte], t_read = 9001 :: 32 word\<rparr>
       < debounceDelay \<and>
   (\<exists>c1 c2 c3 ev1 ev2 ev3.
      loop \<lparr>t_loop = 5000, card = Some [0xD3, 0xEC, 0x2B, 0x28], t_read = 5001\<rparr> ctrl0 = (Continue c1, ev1) \<and>
      addMode c1 \<and>
      loop \<lparr>t_loop = 9000, card = Some [0x11, 0x22, 0x33, 0x44], t_read = 9001\<rparr> c1 = (Continue c2, ev2) \<and>
      \<not> addMode c2 \<and> Log (MsgNewCard (encode_uid [0x11, 0x22, 0x33, 0x44])) \<in> set ev2 \<and>
      loop \<lparr>t_loop = 13000, card = Some [0x11, 0x22, 0x33, 0x44], t_read = 13001\<rparr> c2 = (Continue c3, ev3) \<and>
      \<not> addMode c3 \<and> ee c3 = ee c2 \<and> cardCount c3 = cardCount c2 \<and>
      Log (MsgNewCard (encode_uid [0x11, 0x22, 0x33, 0x44])) \<notin> set ev3 \<and>
      (RelayWrite False \<in> set ev3 \<longleftrightarrow> checkUID (encode_uid [0x11, 0x22, 0x33, 0x44]) c2))"
proof -
  let ?i1 = "\<lparr>t_loop = 5000 :: 32 word, card = Some [0xD3, 0xEC, 0x2B, 0x28 :: byte], t_read = 5001 :: 32 word\<rparr>"
  let ?i2 = "\<lparr>t_loop = 9000 :: 32 word, card = Some [0x11, 0x22, 0x33, 0x44 :: byte], t_read = 9001 :: 32 word\<rparr>"
  let ?i3 = "\<lparr>t_loop = 13000 :: 32 word, card = Some [0x11, 0x22, 0x33, 0x44 :: byte], t_read = 13001 :: 32 word\<rparr>"
  have rd1: "card ?i1 = Some [0xD3, 0xEC, 0x2B, 0x28]" and rd2: "card ?i2 = Some [0x11, 0x22, 0x33, 0x44]"
    and rd3: "card ?i3 = Some [0x11, 0x22, 0x33, 0x44]" by simp_all
  have m: "encode_uid [0xD3, 0xEC, 0x2B, 0x28] = masterUID" by (simp add: encode_examples)
  have xm: "encode_uid [0x11, 0x22, 0x33, 0x44] \<noteq> masterUID"
    and xr: "encode_uid [0x11, 0x22, 0x33, 0x44] \<noteq> eepromResetUID"
    by (simp_all add: encode_examples masterUID_def eepromResetUID_def)
  have o1: "\<not> t_loop ?i1 - lastReadTime ctrl0 < debounceDelay" by (simp add: ctrl0_def debounceDelay_def)
  have o2: "\<not> t_loop ?i2 - t_read ?i1 < debounceDelay" and o3: "\<not> t_loop ?i3 - t_read ?i2 < debounceDelay"
    by (simp_all add: debounceDelay_def)
  show ?thesis
    using rd1 m o1 rd2 xm xr o2 rd3 o3
      enroll_single_shot [OF rd1 m o1 rd2 xm xr o2 rd3 xm xr o3]
    by blast
qed

text \<open>C32: an iteration of \<open>loop()\<close> keeps the sketch away from the reader for at
  most five seconds of \<open>delay()\<close> (the grant: 3000 ms with the relay energised
  and 2000 ms after it), so the reader is polled again within that bound.\<close>

theorem loop_blocking_bound: "delay_total (snd (loop i c)) \<le> 5000"
  by (auto simp: loop_def handle_card_def Let_def delay_total_def master_feedback_def
      split: option.splits)

end
