(* ===== verification/Controller_Spec.thy ===== *)
theory Controller_Spec
  imports Controller
begin

text \<open>
  The access-control state machine as the spec (section 4.4) describes it, and the
  proof that \<open>loop()\<close> of \<open>src/src/main.cpp\<close> implements it.  The abstract
  state \<open>abs_ctrl\<close> holds the store as a list of identifiers, the enrollment
  flag and the time of the last accepted read; \<open>spec_read\<close> is the reaction to a
  read identifier, \<open>spec_iter\<close> adds the debounce window, and \<open>spec_run\<close> runs
  a sequence of observations up to a restart.  The observable output of an
  iteration is whether it energised the relay.  \<open>abs_ctrl_of\<close> lifts a
  controller state to the abstract one, \<open>loop_run\<close> runs \<open>loop\<close> on a sequence
  of inputs (the core calls \<open>loop()\<close> again and again) up to a restart.  The
  simulation holds for every input whose identifier fits a slot (\<open>fits\<close>); the
  runs keep the store invariant, duplicates included.
\<close>

subsection \<open>The abstract state machine\<close>

record abs_ctrl =
  a_store :: "uid list"
  a_enroll :: bool
  a_last :: "32 word"

datatype abs_out = A_Continue abs_ctrl | A_Restart "uid list"

text \<open>A read identifier \<open>x\<close> at time \<open>now\<close>: the master card arms enrollment
  and is acknowledged on the relay; the reset card empties the store and restarts;
  in enrollment mode the identifier is inserted (a refusal leaves the store) and
  enrollment ends; otherwise the relay is energised exactly for a stored identifier.\<close>

definition spec_read :: "32 word \<Rightarrow> uid \<Rightarrow> abs_ctrl \<Rightarrow> abs_out \<times> bool" where
  "spec_read now x a =
     (if x = masterUID then (A_Continue (a\<lparr>a_enroll := True, a_last := now\<rparr>), True)
      else if x = eepromResetUID then (A_Restart [], False)
      else if a_enroll a then
        (A_Continue (a\<lparr>a_store := (case abs_insert x (a_store a) of Inl _ \<Rightarrow> a_store a | Inr L \<Rightarrow> L),
                       a_enroll := False, a_last := now\<rparr>), False)
      else (A_Continue (a\<lparr>a_last := now\<rparr>), x \<in> set (a_store a)))"

text \<open>Reads within the debounce window of the last accepted one are ignored.\<close>

definition spec_iter :: "32 word \<Rightarrow> uid option \<Rightarrow> 32 word \<Rightarrow> abs_ctrl \<Rightarrow> abs_out \<times> bool" where
  "spec_iter t x now a =
     (if t - a_last a < debounceDelay then (A_Continue a, False)
      else case x of None \<Rightarrow> (A_Continue a, False) | Some u \<Rightarrow> spec_read now u a)"

fun spec_run :: "(32 word \<times> uid option \<times> 32 word) list \<Rightarrow> abs_ctrl \<Rightarrow> abs_out \<times> bool list" where
  "spec_run [] a = (A_Continue a, [])"
| "spec_run ((t, x, now) # obs) a =
     (case spec_iter t x now a of
        (A_Continue a', g) \<Rightarrow> (let (out, gs) = spec_run obs a' in (out, g # gs))
      | (A_Restart L, g) \<Rightarrow> (A_Restart L, [g]))"

subsection \<open>The concrete runs and the abstraction\<close>

definition abs_ctrl_of :: "ctrl \<Rightarrow> abs_ctrl" where
  "abs_ctrl_of c = \<lparr>a_store = stored_uids c, a_enroll = addMode c, a_last = lastReadTime c\<rparr>"

fun abs_out_of :: "loop_out \<Rightarrow> abs_out" where
  "abs_out_of (Continue c) = A_Continue (abs_ctrl_of c)"
| "abs_out_of (Restart e) = A_Restart (persisted_uids e)"

definition energised :: "event list \<Rightarrow> bool" where
  "energised ev \<longleftrightarrow> RelayWrite False \<in> set ev"

fun loop_run :: "loop_in list \<Rightarrow> ctrl \<Rightarrow> loop_out \<times> bool list" where
  "loop_run [] c = (Continue c, [])"
| "loop_run (i # ins) c =
     (case loop i c of
        (Continue c', ev) \<Rightarrow> (let (out, gs) = loop_run ins c' in (out, energised ev # gs))
      | (Restart e, ev) \<Rightarrow> (Restart e, [energised ev]))"

definition observe :: "loop_in \<Rightarrow> 32 word \<times> uid option \<times> 32 word" where
  "observe i = (t_loop i, map_option encode_uid (card i), t_read i)"

definition fits :: "loop_in \<Rightarrow> bool" where
  "fits i \<longleftrightarrow> pred_option (\<lambda>bs. length (encode_uid bs) \<le> UIDLength) (card i)"

subsection \<open>Simulation of one iteration\<close>

lemma encode_valid: "length (encode_uid bs) \<le> UIDLength \<Longrightarrow> valid_uid (encode_uid bs)"
  using encode_uid_no_nul by (simp add: valid_uid_def)

lemma abs_insert_stored:
  "valid_uid u \<Longrightarrow>
   stored_uids (addUID_state u s) = (case abs_insert u (stored_uids s) of Inl _ \<Rightarrow> stored_uids s | Inr L \<Rightarrow> L)"
  by (simp add: addUID_state_stored abs_insert_def)

lemma loop_sim:
  assumes fit: "fits i"
  shows "abs_out_of (fst (loop i c)) = fst (spec_iter (t_loop i) (map_option encode_uid (card i)) (t_read i) (abs_ctrl_of c)) \<and>
         energised (snd (loop i c)) = snd (spec_iter (t_loop i) (map_option encode_uid (card i)) (t_read i) (abs_ctrl_of c))"
proof (cases "t_loop i - lastReadTime c < debounceDelay")
  case True
  then show ?thesis by (simp add: loop_window spec_iter_def abs_ctrl_of_def energised_def)
next
  case open_: False
  show ?thesis
  proof (cases "card i")
    case None
    with open_ show ?thesis by (simp add: loop_def spec_iter_def abs_ctrl_of_def energised_def)
  next
    case (Some bs)
    with fit have v: "valid_uid (encode_uid bs)" by (simp add: fits_def encode_valid)
    have spec: "spec_iter (t_loop i) (map_option encode_uid (card i)) (t_read i) (abs_ctrl_of c) =
                spec_read (t_read i) (encode_uid bs) (abs_ctrl_of c)"
      using open_ Some by (simp add: spec_iter_def abs_ctrl_of_def)
    have l: "loop i c = handle_card (t_read i) bs c" using open_ Some by (rule loop_read)
    show ?thesis
      unfolding spec l
      using v
      by (auto simp: handle_card_def Let_def spec_read_def abs_ctrl_of_def energised_def resetEEPROM_def
          addUID_state_time abs_insert_stored master_feedback_def checkUID_stored_form split: sum.splits)
  qed
qed


lemma loop_run_Cons:
  "loop i c = (out, ev) \<Longrightarrow>
   loop_run (i # ins) c = (case out of Continue c' \<Rightarrow> (fst (loop_run ins c'), energised ev # snd (loop_run ins c'))
                                  | Restart e \<Rightarrow> (Restart e, [energised ev]))"
  by (cases out) (simp_all add: split_def Let_def)

lemma spec_run_Cons:
  "spec_iter t x now a = (out, g) \<Longrightarrow>
   spec_run ((t, x, now) # obs) a = (case out of A_Continue a' \<Rightarrow> (fst (spec_run obs a'), g # snd (spec_run obs a'))
                                              | A_Restart L \<Rightarrow> (A_Restart L, [g]))"
  by (cases out) (simp_all add: split_def Let_def)

lemma loop_sim_eq:
  assumes fit: "fits i" and l: "loop i c = (out, ev)"
  shows "spec_iter (t_loop i) (map_option encode_uid (card i)) (t_read i) (abs_ctrl_of c) = (abs_out_of out, energised ev)"
  using loop_sim [OF fit, of c] l by (simp add: prod_eq_iff)

lemma spec_read_distinct:
  "spec_read now x a = (A_Continue a', g) \<Longrightarrow> distinct (a_store a) \<Longrightarrow> distinct (a_store a')"
  by (auto simp: spec_read_def abs_insert_def split: if_splits sum.splits)

lemma spec_iter_distinct:
  "spec_iter t x now a = (A_Continue a', g) \<Longrightarrow> distinct (a_store a) \<Longrightarrow> distinct (a_store a')"
  by (auto simp: spec_iter_def dest: spec_read_distinct split: if_splits option.splits)

lemma store_inv_split: "store_inv s \<longleftrightarrow> count_inv s \<and> distinct (stored_uids s)"
  by (auto simp: store_inv_def count_inv_def)

lemma loop_store_inv:
  assumes fit: "fits i" and inv: "store_inv c" and l: "loop i c = (Continue c', ev)"
  shows "store_inv c'"
proof -
  from loop_sim_eq [OF fit l] have
    "spec_iter (t_loop i) (map_option encode_uid (card i)) (t_read i) (abs_ctrl_of c) =
       (A_Continue (abs_ctrl_of c'), energised ev)"
    by simp
  moreover have "distinct (a_store (abs_ctrl_of c))" using inv by (simp add: store_inv_split abs_ctrl_of_def)
  ultimately have "distinct (stored_uids c')"
    using spec_iter_distinct by (fastforce simp: abs_ctrl_of_def)
  moreover have "count_inv c'" using l inv by (simp add: store_inv_split loop_continue)
  ultimately show ?thesis by (simp add: store_inv_split)
qed

subsection \<open>Runs\<close>

text \<open>C7: every run of \<open>loop()\<close> on inputs whose identifiers fit a slot implements
  the abstract state machine of the spec: the abstraction of the state it ends in
  (or of the EEPROM a restart leaves) and the sequence of iterations that energised
  the relay are those of the abstract run on the observed identifiers.\<close>

theorem loop_run_refines:
  "list_all fits ins \<Longrightarrow> map_prod abs_out_of id (loop_run ins c) = spec_run (map observe ins) (abs_ctrl_of c)"
proof (induction ins arbitrary: c)
  case Nil
  then show ?case by simp
next
  case (Cons i ins)
  obtain out ev where l: "loop i c = (out, ev)" by fastforce
  from Cons.prems have fit: "fits i" and fits: "list_all fits ins" by simp_all
  from loop_sim_eq [OF fit l] have
    s: "spec_iter (t_loop i) (map_option encode_uid (card i)) (t_read i) (abs_ctrl_of c) = (abs_out_of out, energised ev)" .
  have o: "observe i = (t_loop i, map_option encode_uid (card i), t_read i)" by (simp add: observe_def)
  show ?case
  proof (cases out)
    case (Continue c')
    have IH: "map_prod abs_out_of id (loop_run ins c') = spec_run (map observe ins) (abs_ctrl_of c')"
      using Cons.IH [OF fits] .
    from s Continue have "spec_run (observe i # map observe ins) (abs_ctrl_of c) =
        (fst (spec_run (map observe ins) (abs_ctrl_of c')), energised ev # snd (spec_run (map observe ins) (abs_ctrl_of c')))"
      by (simp only: o spec_run_Cons) simp
    moreover from Continue have "loop_run (i # ins) c = (fst (loop_run ins c'), energised ev # snd (loop_run ins c'))"
      by (simp only: loop_run_Cons [OF l]) simp
    ultimately show ?thesis using IH by (simp add: map_prod_def split_def prod_eq_iff)
  next
    case (Restart e)
    with s show ?thesis
      by (simp only: list.map o spec_run_Cons loop_run_Cons [OF l]) simp
  qed
qed

theorem loop_run_refines_witness:
  "list_all fits [\<lparr>t_loop = 5000, card = Some [0xD3, 0xEC, 0x2B, 0x28], t_read = 5001\<rparr>,
                  \<lparr>t_loop = 9000, card = Some [0x11, 0x22, 0x33, 0x44], t_read = 9001\<rparr>] \<and>
   map_prod abs_out_of id
     (loop_run [\<lparr>t_loop = 5000, card = Some [0xD3, 0xEC, 0x2B, 0x28], t_read = 5001\<rparr>,
                \<lparr>t_loop = 9000, card = Some [0x11, 0x22, 0x33, 0x44], t_read = 9001\<rparr>] ctrl0) =
   spec_run (map observe [\<lparr>t_loop = 5000, card = Some [0xD3, 0xEC, 0x2B, 0x28], t_read = 5001\<rparr>,
                          \<lparr>t_loop = 9000, card = Some [0x11, 0x22, 0x33, 0x44], t_read = 9001\<rparr>])
     (abs_ctrl_of ctrl0)"
proof -
  have f: "list_all fits [\<lparr>t_loop = 5000, card = Some [0xD3, 0xEC, 0x2B, 0x28], t_read = 5001\<rparr>,
                          \<lparr>t_loop = 9000, card = Some [0x11, 0x22, 0x33, 0x44], t_read = 9001\<rparr>]"
    by (simp add: fits_def encode_examples masterUID_def UIDLength_def)
  show ?thesis using f loop_run_refines [OF f] by simp
qed

text \<open>C9: along every run on inputs whose identifiers fit a slot the store
  invariant is kept: the count stays in range and persisted, and no identifier is
  ever stored twice.\<close>

theorem loop_run_store_inv:
  "store_inv c \<Longrightarrow> list_all fits ins \<Longrightarrow> fst (loop_run ins c) = Continue c' \<Longrightarrow> store_inv c'"
proof (induction ins arbitrary: c)
  case Nil
  then show ?case by simp
next
  case (Cons i ins)
  obtain out ev where l: "loop i c = (out, ev)" by fastforce
  from Cons.prems have fit: "fits i" and fits: "list_all fits ins" by simp_all
  show ?case
  proof (cases out)
    case (Continue c1)
    with l fit Cons.prems(1) have inv1: "store_inv c1" by (simp add: loop_store_inv)
    have "fst (loop_run ins c1) = Continue c'"
      using Cons.prems(3) Continue by (simp only: loop_run_Cons [OF l]) simp
    then show ?thesis using Cons.IH [OF inv1 fits] by simp
  next
    case (Restart e)
    with l Cons.prems(3) show ?thesis by (simp add: loop_run_Cons [OF l])
  qed
qed


theorem loop_run_store_inv_witness:
  "store_inv ctrl0 \<and>
   list_all fits [\<lparr>t_loop = 5000, card = Some [0xD3, 0xEC, 0x2B, 0x28], t_read = 5001\<rparr>,
                  \<lparr>t_loop = 9000, card = Some [0x11, 0x22, 0x33, 0x44], t_read = 9001\<rparr>] \<and>
   (\<exists>c'. fst (loop_run [\<lparr>t_loop = 5000, card = Some [0xD3, 0xEC, 0x2B, 0x28], t_read = 5001\<rparr>,
                         \<lparr>t_loop = 9000, card = Some [0x11, 0x22, 0x33, 0x44], t_read = 9001\<rparr>] ctrl0) =
           Continue c' \<and> store_inv c')"
proof -
  let ?ins = "[\<lparr>t_loop = 5000, card = Some [0xD3, 0xEC, 0x2B, 0x28], t_read = 5001\<rparr>,
               \<lparr>t_loop = 9000 :: 32 word, card = Some [0x11, 0x22, 0x33, 0x44 :: byte], t_read = 9001 :: 32 word\<rparr>]"
  have i: "store_inv ctrl0" by (simp add: store_inv_def ctrl0_def stored_uids_def)
  have f: "list_all fits ?ins" by (simp add: fits_def encode_examples masterUID_def UIDLength_def)
  obtain c' where r: "fst (loop_run ?ins ctrl0) = Continue c'"
    by (simp add: loop_def ctrl0_def debounceDelay_def handle_card_def Let_def split_def encode_examples
        masterUID_def eepromResetUID_def)
  show ?thesis using i f r loop_run_store_inv [OF i f r] by blast
qed

end
