(* ===== verification/Eeprom.thy ===== *)
theory Eeprom
  imports Provision
begin

text \<open>
  The EEPROM as the sketch uses it (\<open>EEPROM.read\<close>, \<open>EEPROM.write\<close> of the
  Arduino library; spec sections 1 and 6: byte-addressed, durable, bounded, with a
  limited write endurance per cell).  The store model treats the EEPROM as a total
  map from addresses to bytes; this theory shows that nothing is lost by that on a
  real, bounded device: while the count is in range the store reads and writes only
  the cells below \<open>1 + maxCards * UIDLength\<close> = 601, so every device with at
  least that many cells behaves as the model, whatever it does elsewhere.  It also
  makes the writes of \<open>addUID\<close> and of \<open>addPredefinedUIDs\<close> explicit as
  lists of \<open>EEPROM.write\<close> calls, to count the wear of a boot.
\<close>

subsection \<open>Definitions\<close>

text \<open>Two EEPROM contents that agree on the cells below \<open>n\<close>.\<close>

definition agree_below :: "nat \<Rightarrow> eeprom \<Rightarrow> eeprom \<Rightarrow> bool" where
  "agree_below n e e' \<longleftrightarrow> list_all (\<lambda>a. e a = e' a) [0..<n]"

text \<open>The \<open>EEPROM.write\<close> calls of \<open>addUID\<close> (lines 169--181): the twelve slot
  bytes and then the count byte when the insert succeeds, none on a refusal.\<close>

definition addUID_writes :: "uid \<Rightarrow> 'a store_scheme \<Rightarrow> (nat \<times> byte) list" where
  "addUID_writes u s = (case addUID u s of Inl _ \<Rightarrow> [] | Inr _ \<Rightarrow> add_writes (cardCount s) u)"

text \<open>The \<open>EEPROM.write\<close> calls of \<open>addPredefinedUIDs\<close> (lines 212--220), in
  program order: those of each \<open>addUID\<close> the loop makes.\<close>

fun seed_writes :: "uid list \<Rightarrow> 'a store_scheme \<Rightarrow> (nat \<times> byte) list" where
  "seed_writes [] s = []"
| "seed_writes (p # ps) s =
     (if \<not> checkUID p s then addUID_writes p s @ seed_writes ps (addUID_state p s) else seed_writes ps s)"

subsection \<open>The write lists are the writes of the operations\<close>

lemma agree_below_iff: "agree_below n e e' \<longleftrightarrow> (\<forall>a < n. e a = e' a)"
  by (auto simp: agree_below_def list_all_iff)

lemma addUID_writes_ee: "ee (addUID_state u s) = ee_writes (addUID_writes u s) (ee s)"
proof (cases "addUID u s")
  case (Inl err)
  then show ?thesis by (simp add: addUID_writes_def addUID_state_def)
next
  case (Inr s')
  then have "s' = s\<lparr>ee := ee_writes (add_writes (cardCount s) u) (ee s), cardCount := Suc (cardCount s)\<rparr>"
    by (simp add: addUID_Inr)
  with Inr show ?thesis by (simp add: addUID_writes_def addUID_state_def)
qed

lemma seed_writes_ee: "ee (fst (seed_loop ps s)) = ee_writes (seed_writes ps s) (ee s)"
proof (induction ps arbitrary: s)
  case Nil
  then show ?case by simp
next
  case (Cons p ps)
  show ?case
  proof (cases "checkUID p s")
    case True
    then have "addUID_state p s = s" by (rule addUID_state_present)
    with True Cons.IH [of s] show ?thesis by (simp add: seed_loop_state)
  next
    case False
    with Cons.IH [of "addUID_state p s"] show ?thesis
      by (simp add: seed_loop_state addUID_writes_ee ee_writes_append)
  qed
qed

lemma seed_writes_stable:
  "\<forall>q \<in> set ps. checkUID q s \<or> maxCards \<le> cardCount s \<Longrightarrow> seed_writes ps s = []"
proof (induction ps)
  case Nil
  then show ?case by simp
next
  case (Cons p ps)
  from Cons.prems have "checkUID p s \<or> maxCards \<le> cardCount s" by (metis list.set_intros(1))
  then have "addUID_writes p s = [] \<and> addUID_state p s = s"
    by (auto simp: addUID_writes_def addUID_def addUID_state_full addUID_state_present)
  with Cons show ?case by auto
qed

subsection \<open>Wear\<close>

text \<open>C16: a boot after a boot writes nothing: once \<open>addPredefinedUIDs\<close> has run,
  running it again (as every later boot does) performs no \<open>EEPROM.write\<close> at all,
  so the loader does not wear the EEPROM cells with each power-on.\<close>

theorem reboot_no_writes: "seed_writes predefinedUIDs (fst (seed_loop predefinedUIDs s)) = []"
  using seed_loop_covers [OF predefined_valid] by (intro seed_writes_stable) blast

subsection \<open>A bounded device\<close>

lemma agree_below_writes:
  "agree_below n e e' \<Longrightarrow> agree_below n (ee_writes ws e) (ee_writes ws e')"
  by (induction ws arbitrary: e e') (auto simp: agree_below_iff)

lemma slot_below: "i < maxCards \<Longrightarrow> k < UIDLength \<Longrightarrow> slot_start i + k < 1 + maxCards * UIDLength"
  by (simp add: slot_start_def maxCards_def UIDLength_def)

lemma stored_uids_agree:
  assumes c: "cardCount s \<le> maxCards" and ag: "agree_below (1 + maxCards * UIDLength) (ee s) e'"
  shows "stored_uids (s\<lparr>ee := e'\<rparr>) = stored_uids s"
proof -
  have "readUIDFromEEPROM i e' = readUIDFromEEPROM i (ee s)" if "i < cardCount s" for i
  proof (rule read_slot_cong)
    fix k assume "k < UIDLength"
    with that c have "slot_start i + k < 1 + maxCards * UIDLength" by (intro slot_below) simp_all
    with ag show "e' (slot_start i + k) = ee s (slot_start i + k)" by (simp add: agree_below_iff)
  qed
  then show ?thesis by (simp add: stored_uids_def)
qed

text \<open>C15: the unbounded EEPROM of the model is exact for every device with at least
  601 cells: on a store whose count is in range, replacing the cells from 601 on by
  anything changes neither the stored identifiers, nor the answer of
  \<open>checkUID\<close>, nor the outcome of \<open>addUID\<close>, and after \<open>addUID\<close> the two
  EEPROMs still agree below 601.\<close>

theorem store_device_exact:
  assumes c: "cardCount s \<le> maxCards" and ag: "agree_below (1 + maxCards * UIDLength) (ee s) e'"
  shows "stored_uids (s\<lparr>ee := e'\<rparr>) = stored_uids s \<and>
         checkUID u (s\<lparr>ee := e'\<rparr>) = checkUID u s \<and>
         map_sum id cardCount (addUID u (s\<lparr>ee := e'\<rparr>)) = map_sum id cardCount (addUID u s) \<and>
         agree_below (1 + maxCards * UIDLength) (ee (addUID_state u (s\<lparr>ee := e'\<rparr>))) (ee (addUID_state u s))"
proof -
  have st: "stored_uids (s\<lparr>ee := e'\<rparr>) = stored_uids s" using c ag by (rule stored_uids_agree)
  then have ck: "checkUID v (s\<lparr>ee := e'\<rparr>) = checkUID v s" for v by (simp add: checkUID_stored_form)
  have "agree_below (1 + maxCards * UIDLength) (ee_writes ws e') (ee_writes ws (ee s))" for ws
    using ag by (intro agree_below_writes) (auto simp: agree_below_iff)
  with ck have ag': "agree_below (1 + maxCards * UIDLength) (ee (addUID_state u (s\<lparr>ee := e'\<rparr>))) (ee (addUID_state u s))"
    using ag by (auto simp: addUID_state_def addUID_def agree_below_iff)
  from ck have "map_sum id cardCount (addUID u (s\<lparr>ee := e'\<rparr>)) = map_sum id cardCount (addUID u s)"
    by (simp add: addUID_def)
  with st ck ag' show ?thesis by simp
qed

theorem store_device_exact_witness:
  "cardCount \<lparr>ee = (\<lambda>_. 0 :: byte), cardCount = 0\<rparr> \<le> maxCards \<and>
   agree_below (1 + maxCards * UIDLength) (\<lambda>_. 0) ((\<lambda>_. 0)(700 := 5)) \<and>
   stored_uids \<lparr>ee = (\<lambda>_. 0)(700 := 5), cardCount = 0\<rparr> = stored_uids \<lparr>ee = (\<lambda>_. 0 :: byte), cardCount = 0\<rparr> \<and>
   checkUID ''A1'' \<lparr>ee = (\<lambda>_. 0)(700 := 5), cardCount = 0\<rparr> = checkUID ''A1'' \<lparr>ee = (\<lambda>_. 0 :: byte), cardCount = 0\<rparr> \<and>
   map_sum id cardCount (addUID ''A1'' \<lparr>ee = (\<lambda>_. 0)(700 := 5), cardCount = 0\<rparr>) =
     map_sum id cardCount (addUID ''A1'' \<lparr>ee = (\<lambda>_. 0 :: byte), cardCount = 0\<rparr>) \<and>
   agree_below (1 + maxCards * UIDLength) (ee (addUID_state ''A1'' \<lparr>ee = (\<lambda>_. 0)(700 := 5), cardCount = 0\<rparr>))
     (ee (addUID_state ''A1'' \<lparr>ee = (\<lambda>_. 0 :: byte), cardCount = 0\<rparr>))"
proof -
  let ?s = "\<lparr>ee = (\<lambda>_. 0 :: byte), cardCount = 0\<rparr>"
  have c: "cardCount ?s \<le> maxCards" by simp
  have ag: "agree_below (1 + maxCards * UIDLength) (ee ?s) ((\<lambda>_. 0)(700 := 5))"
    by (simp add: agree_below_iff maxCards_def UIDLength_def)
  show ?thesis using c ag store_device_exact [OF c ag, of "''A1''"] by simp
qed

end
