(* ===== verification/Spec2Isabelle.thy ===== *)
theory Spec2Isabelle
  imports Controller_Spec Eeprom
begin

text \<open>
  \<^bold>\<open>A verification model of the NFC door controller (\<open>src/src/main.cpp\<close>).\<close>

  The program is an Arduino sketch: a PN532 card reader, a relay on pin 3 and the
  on-chip EEPROM.  Its parts, leaves first:
  \<^item> the identifier codec (\<open>loop()\<close>, lines 113--118) renders the raw UID bytes as
    hexadecimal text and upper-cases it;
  \<^item> the persistent store (\<open>cardCount\<close>, \<open>saveUIDToEEPROM\<close>,
    \<open>readUIDFromEEPROM\<close>, \<open>checkUID\<close>, \<open>addUID\<close>, \<open>resetEEPROM\<close>) keeps up
    to \<open>maxCards\<close> = 50 identifiers in twelve-byte EEPROM slots after a count byte;
  \<^item> the provisioning loader (\<open>predefinedUIDs\<close>, \<open>addPredefinedUIDs\<close>) seeds the
    31 built-in identifiers through \<open>checkUID\<close> and \<open>addUID\<close> at every boot;
  \<^item> the controller (\<open>setup()\<close>, \<open>loop()\<close>) loads the count, seeds, debounces
    reads, recognises the master and the reset card, runs single-shot enrollment
    through \<open>addUID\<close>, checks access through \<open>checkUID\<close> and drives the relay;
    the reset card calls \<open>resetEEPROM()\<close>, whose jump to address 0 reruns
    \<open>setup()\<close>.

  \<^bold>\<open>Theories.\<close>
  \<^item> \<open>Prelude\<close>: the types (\<open>byte = 8 word\<close>, \<open>eeprom = nat \<Rightarrow> byte\<close>,
    \<open>uid = string\<close>), the console lines
    \<open>diag\<close>, the C conversions between \<open>char\<close> and \<open>uint8_t\<close>, sequences of
    EEPROM writes (\<open>ee_writes\<close>, the \<open>EEPROM.write\<close> calls in program order)
    and shared lemmas.
  \<^item> \<open>Codec\<close>: \<open>utoa_hex\<close> (\<open>String(v, HEX)\<close>), \<open>toUpperCase\<close>,
    \<open>content_loop\<close> and \<open>encode_uid\<close>; a reference two-digit decoder
    \<open>decode_hex\<close>.  Lemmas: alphabet (C33), length bounds (C34), round trip
    for bytes of at least \<open>0x10\<close> (C35), the collisions of unpadded rendering (C36).
  \<^item> \<open>Store\<close>: the record \<open>store\<close> (EEPROM and \<open>cardCount\<close>), the slot writes
    \<open>save_writes\<close>/\<open>saveUIDToEEPROM\<close>, \<open>readUIDFromEEPROM\<close>, the scan
    \<open>check_loop\<close>/\<open>checkUID\<close> (a \<^theory_text>\<open>function\<close> with a measure),
    \<open>add_writes\<close>/\<open>addUID\<close> with the
    errors \<open>DuplicateIdentifier\<close> and \<open>CapacityExceeded\<close> as \<open>Inl\<close> values,
    and \<open>resetEEPROM\<close>.  The abstract view \<open>stored_uids\<close> is the list of
    identifiers in slots below the count; \<open>abs_insert\<close> is the bounded insert it
    promises; \<open>persisted_uids\<close> is what a reboot reads back from the EEPROM
    alone.  Lemmas: refinement of \<open>abs_insert\<close> (C1), the scan answers membership
    (C2), the store invariant is kept (C3), every prefix of the writes of
    \<open>addUID\<close> (a power loss) leaves the old or the new list persisted (C4),
    \<open>checkUID\<close> after any sequence of inserts (C11), fifty inserts fill the store
    and the next is refused (C13), a slot reads back what was saved (C23), a second
    insert is refused (C25), the findings on long identifiers (C28) and seven-byte
    UIDs (C29), and the cells \<open>addUID\<close> writes (C31).
  \<^item> \<open>Provision\<close>: \<open>predefinedUIDs\<close>, the loop \<open>seed_loop\<close> with its console
    lines and \<open>addPredefinedUIDs\<close>; \<open>abs_seed\<close> is the loop on the abstract
    list.  Lemmas: a second run changes nothing (C21), seeding an empty store
    stores the whole table (C22), and the loader reports a card as added when
    \<open>addUID\<close> refused it (C30).
  \<^item> \<open>Controller\<close>: the record \<open>ctrl\<close> (the store extended with \<open>addMode\<close>
    and the 32-bit \<open>lastReadTime\<close>), \<open>handle_card\<close> (lines 111--158),
    \<open>loop\<close> (one iteration, inputs \<open>loop_in\<close>: the two \<open>millis()\<close> readings
    and the reader's answer), \<open>setup_sketch\<close>, the system step \<open>sys_step\<close>
    and the reachable states \<open>reachable_from\<close> (an inductive relation).
    Lemmas: every reachable state keeps the count invariant (C5, by rule
    induction), one presentation gives one transition under the debounce test (C6), a stored
    card is granted within two presentations (C10, progress), enrollment is
    single-shot (C12), the reset card (C17), enrollment (C18), access (C19),
    \<open>setup()\<close> trusts the count byte (C26), the master card (C27), and the time
    an iteration blocks in \<open>delay()\<close> (C32).
  \<^item> \<open>Controller_Spec\<close>: the state machine of the spec (section 4.4) as an abstract
    record \<open>abs_ctrl\<close> (store as a list, enrollment flag, time of the last read)
    with the steps \<open>spec_read\<close>, \<open>spec_iter\<close> and the runs \<open>spec_run\<close>; the
    abstraction \<open>abs_ctrl_of\<close> and the runs of the sketch \<open>loop_run\<close> (the core
    calls \<open>loop()\<close> repeatedly).  Lemmas: every run on identifiers that fit a slot
    simulates the abstract run, relay included (C7), and keeps the store
    invariant, no duplicates included (C9).
  \<^item> \<open>Eeprom\<close>: the EEPROM as a device: \<open>agree_below\<close> (two contents that agree
    on the cells below a bound), the write lists \<open>addUID_writes\<close> and
    \<open>seed_writes\<close> of \<open>addUID\<close> and \<open>addPredefinedUIDs\<close>.  Lemmas: the model is
    exact for every device of at least 601 cells (C15), and a boot after a
    boot writes nothing (C16).
  \<^item> this theory: properties across components: the enrollment of a new card followed
    by access (C20), the reset card re-seeding the table (C24), the special
    identifiers are never stored in any reachable state (C8), and what a
    reboot loads is what the running device stores (C14).

  \<^bold>\<open>Bounds.\<close>  \<open>millis()\<close> and \<open>lastReadTime\<close> are \<open>32 word\<close>s, so the
  elapsed time of the debounce test is the unsigned difference modulo \<open>2^32\<close>, as
  in the source, and the window survives the wrap of the clock; UID bytes and
  EEPROM cells are \<open>8 word\<close>s.  Slot indices, addresses and \<open>cardCount\<close> are
  natural numbers: \<open>cardCount\<close> is loaded from one byte and only incremented
  below \<open>maxCards\<close>, so every index is below 256 and every address below 3072,
  far inside the 16-bit \<open>int\<close> of the sketch.  No loop needs fuel:
  \<open>check_loop\<close> terminates by the measure \<open>cardCount - i\<close>, and the other loops
  recurse on lists.

  \<^bold>\<open>Not modelled.\<close>  The PN532 driver (\<open>Adafruit_PN532\<close>) and the I2C bus
  (\<open>Wire\<close>) are libraries outside the repository that the sketch only calls: the
  model takes the reader's answer, the firmware version and the clock as inputs of
  each step, as the spec treats the reader as an external capability.  The serial
  console is modelled by which message each \<open>Serial.print\<close> site emits
  (\<open>diag\<close>), not by its Turkish text, which is not ASCII.  Delays are events, not
  time that passes.  The EEPROM is a total byte map: \<open>Eeprom\<close> shows that this
  is exact for every device of at least 601 cells while the count is in range
  (C15), and \<open>addUID\<close> never writes past cell 600 (C31).  What a device
  does past its last cell is not modelled: the repository names no board, and it
  matters only for a count byte above \<open>maxCards\<close>, which \<open>setup()\<close> loads
  unchecked (C26).
\<close>

subsection \<open>Properties across components\<close>

text \<open>C24: the reset card does not leave an empty store: \<open>resetEEPROM()\<close> zeroes the
  count and restarts, and the restarted \<open>setup()\<close> seeds the built-in table again,
  so the device comes back with exactly the 31 factory identifiers, enrollment off
  and the debounce clock at 0.\<close>

theorem reset_card_reseeds:
  assumes open_: "\<not> t_loop (loop_input i) - lastReadTime c < debounceDelay"
    and rd: "card (loop_input i) = Some bs" and r: "encode_uid bs = eepromResetUID"
    and fw: "fw_version i \<noteq> 0"
  shows "\<exists>c'. fst (sys_step i (Running c)) = Running c' \<and> stored_uids c' = predefinedUIDs \<and>
           \<not> addMode c' \<and> lastReadTime c' = 0"
proof -
  let ?e = "(ee c)(0 := 0)"
  let ?c1 = "\<lparr>ee = ?e, cardCount = 0, addMode = False, lastReadTime = 0\<rparr>"
  from open_ rd r obtain ev where l: "loop (loop_input i) c = (Restart ?e, ev)"
    by (simp add: loop_read handle_card_reset)
  have boot: "fst (setup_sketch (fw_version i) ?e) = Running (fst (seed_loop predefinedUIDs ?c1))"
    using fw setup_sketch_running [of "fw_version i" ?e] by simp
  have st: "stored_uids ?c1 = []" by (simp add: stored_uids_def)
  have "stored_uids (fst (seed_loop predefinedUIDs ?c1)) = take maxCards predefinedUIDs"
    using predefined_valid predefined_distinct
    by (simp add: seed_loop_refines st abs_seed_take)
  also have "\<dots> = predefinedUIDs" by (simp add: length_predefined maxCards_def)
  finally have "stored_uids (fst (seed_loop predefinedUIDs ?c1)) = predefinedUIDs" .
  with l boot show ?thesis
    by (cases "setup_sketch (fw_version i) ?e") simp
qed

theorem reset_card_reseeds_witness:
  "\<not> t_loop (loop_input \<lparr>loop_input = \<lparr>t_loop = 5000, card = Some [0xB2, 0xC8, 0x2C, 0x1B], t_read = 5001\<rparr>,
                        fw_version = 0x32\<rparr>) - lastReadTime ctrl0 < debounceDelay \<and>
   card (loop_input \<lparr>loop_input = \<lparr>t_loop = 5000, card = Some [0xB2, 0xC8, 0x2C, 0x1B], t_read = 5001\<rparr>,
                     fw_version = 0x32\<rparr>) = Some [0xB2, 0xC8, 0x2C, 0x1B] \<and>
   encode_uid [0xB2, 0xC8, 0x2C, 0x1B] = eepromResetUID \<and>
   fw_version \<lparr>loop_input = \<lparr>t_loop = 5000 :: 32 word, card = Some [0xB2, 0xC8, 0x2C, 0x1B :: byte],
                t_read = 5001 :: 32 word\<rparr>, fw_version = 0x32 :: 32 word\<rparr> \<noteq> 0 \<and>
   (\<exists>c'. fst (sys_step \<lparr>loop_input = \<lparr>t_loop = 5000, card = Some [0xB2, 0xC8, 0x2C, 0x1B], t_read = 5001\<rparr>,
                          fw_version = 0x32\<rparr> (Running ctrl0)) = Running c' \<and>
         stored_uids c' = predefinedUIDs \<and> \<not> addMode c' \<and> lastReadTime c' = 0)"
proof -
  let ?i = "\<lparr>loop_input = \<lparr>t_loop = 5000 :: 32 word, card = Some [0xB2, 0xC8, 0x2C, 0x1B :: byte],
               t_read = 5001 :: 32 word\<rparr>, fw_version = 0x32 :: 32 word\<rparr>"
  have o: "\<not> t_loop (loop_input ?i) - lastReadTime ctrl0 < debounceDelay"
    by (simp add: ctrl0_def debounceDelay_def)
  have rd: "card (loop_input ?i) = Some [0xB2, 0xC8, 0x2C, 0x1B]" by simp
  have r: "encode_uid [0xB2, 0xC8, 0x2C, 0x1B] = eepromResetUID" by (simp add: encode_examples)
  have fw: "fw_version ?i \<noteq> 0" by simp
  show ?thesis using o rd r fw reset_card_reseeds [OF o rd r fw] by blast
qed

text \<open>C20: the enrollment scenario across the store and the controller: from normal
  mode with room in the store, presenting the master card arms enrollment, presenting
  a new card that fits a slot enrolls it and disarms enrollment, and presenting that
  card again (each read outside the debounce window of the previous one) energises
  the relay.\<close>

theorem enroll_then_grant:
  assumes na: "\<not> addMode c" and room: "cardCount c < maxCards"
    and rd1: "card i1 = Some bm" and m: "encode_uid bm = masterUID"
    and o1: "\<not> t_loop i1 - lastReadTime c < debounceDelay"
    and rd2: "card i2 = Some bx" and o2: "\<not> t_loop i2 - t_read i1 < debounceDelay"
    and xm: "encode_uid bx \<noteq> masterUID" and xr: "encode_uid bx \<noteq> eepromResetUID"
    and short: "length (encode_uid bx) \<le> UIDLength" and new: "\<not> checkUID (encode_uid bx) c"
    and rd3: "card i3 = Some bx" and o3: "\<not> t_loop i3 - t_read i2 < debounceDelay"
  shows "\<exists>c1 c2 c3 ev1 ev2 ev3.
           loop i1 c = (Continue c1, ev1) \<and> addMode c1 \<and>
           loop i2 c1 = (Continue c2, ev2) \<and> \<not> addMode c2 \<and> checkUID (encode_uid bx) c2 \<and>
           loop i3 c2 = (Continue c3, ev3) \<and> RelayWrite False \<in> set ev3"
proof -
  let ?x = "encode_uid bx"
  let ?c1 = "c\<lparr>lastReadTime := t_read i1, addMode := True\<rparr>"
  let ?c2 = "(addUID_state ?x ?c1)\<lparr>lastReadTime := t_read i2, addMode := False\<rparr>"
  have l1: "loop i1 c = (Continue ?c1, [Log (MsgCardRead masterUID), Log MsgMasterCard] @ master_feedback)"
    using o1 rd1 m by (simp add: loop_read handle_card_master)
  have o2': "\<not> t_loop i2 - lastReadTime ?c1 < debounceDelay" using o2 by simp
  obtain ev2 where l2: "loop i2 ?c1 = (Continue ?c2, ev2)"
    using o2' rd2 xm xr by (simp add: loop_read handle_card_enroll)
  have v: "valid_uid ?x" using short encode_uid_no_nul by (simp add: valid_uid_def)
  have "?x \<in> set (stored_uids (addUID_state ?x ?c1))"
    using room new by (simp add: addUID_state_stored [OF v] checkUID_stored_form)
  then have known: "checkUID ?x ?c2" by (simp add: checkUID_stored_form)
  have o3': "\<not> t_loop i3 - lastReadTime ?c2 < debounceDelay" using o3 by simp
  have "\<not> addMode ?c2" by simp
  with o3' rd3 xm xr known obtain c3 ev3 where l3: "loop i3 ?c2 = (Continue c3, ev3)"
    and "RelayWrite False \<in> set ev3"
    by (simp add: loop_read handle_card_normal)
  with l1 l2 known show ?thesis by fastforce
qed

theorem enroll_then_grant_witness:
  "\<not> addMode ctrl0 \<and> cardCount ctrl0 < maxCards \<and>
   card \<lparr>t_loop = 5000 :: 32 word, card = Some [0xD3, 0xEC, 0x2B, 0x28 :: byte], t_read = 5001 :: 32 word\<rparr> =
     Some [0xD3, 0xEC, 0x2B, 0x28] \<and>
   encode_uid [0xD3, 0xEC, 0x2B, 0x28] = masterUID \<and>
   \<not> t_loop \<lparr>t_loop = 5000 :: 32 word, card = Some [0xD3, 0xEC, 0x2B, 0x28 :: byte], t_read = 5001 :: 32 word\<rparr>
       - lastReadTime ctrl0 < debounceDelay \<and>
   card \<lparr>t_loop = 10000 :: 32 word, card = Some [0x11, 0x22, 0x33, 0x44 :: byte], t_read = 10001 :: 32 word\<rparr> =
     Some [0x11, 0x22, 0x33, 0x44] \<and>
   \<not> t_loop \<lparr>t_loop = 10000 :: 32 word, card = Some [0x11, 0x22, 0x33, 0x44 :: byte], t_read = 10001 :: 32 word\<rparr>
       - t_read \<lparr>t_loop = 5000 :: 32 word, card = Some [0xD3, 0xEC, 0x2B, 0x28 :: byte], t_read = 5001 :: 32 word\<rparr>
       < debounceDelay \<and>
   encode_uid [0x11, 0x22, 0x33, 0x44] \<noteq> masterUID \<and> encode_uid [0x11, 0x22, 0x33, 0x44] \<noteq> eepromResetUID \<and>
   length (encode_uid [0x11, 0x22, 0x33, 0x44]) \<le> UIDLength \<and>
   \<not> checkUID (encode_uid [0x11, 0x22, 0x33, 0x44]) ctrl0 \<and>
   card \<lparr>t_loop = 20000 :: 32 word, card = Some [0x11, 0x22, 0x33, 0x44 :: byte], t_read = 20001 :: 32 word\<rparr> =
     Some [0x11, 0x22, 0x33, 0x44] \<and>
   \<not> t_loop \<lparr>t_loop = 20000 :: 32 word, card = Some [0x11, 0x22, 0x33, 0x44 :: byte], t_read = 20001 :: 32 word\<rparr>
       - t_read \<lparr>t_loop = 10000 :: 32 word, card = Some [0x11, 0x22, 0x33, 0x44 :: byte], t_read = 10001 :: 32 word\<rparr>
       < debounceDelay \<and>
   (\<exists>c1 c2 c3 ev1 ev2 ev3.
      loop \<lparr>t_loop = 5000, card = Some [0xD3, 0xEC, 0x2B, 0x28], t_read = 5001\<rparr> ctrl0 = (Continue c1, ev1) \<and>
      addMode c1 \<and>
      loop \<lparr>t_loop = 10000, card = Some [0x11, 0x22, 0x33, 0x44], t_read = 10001\<rparr> c1 = (Continue c2, ev2) \<and>
      \<not> addMode c2 \<and> checkUID (encode_uid [0x11, 0x22, 0x33, 0x44]) c2 \<and>
      loop \<lparr>t_loop = 20000, card = Some [0x11, 0x22, 0x33, 0x44], t_read = 20001\<rparr> c2 = (Continue c3, ev3) \<and>
      RelayWrite False \<in> set ev3)"
proof -
  let ?i1 = "\<lparr>t_loop = 5000 :: 32 word, card = Some [0xD3, 0xEC, 0x2B, 0x28 :: byte], t_read = 5001 :: 32 word\<rparr>"
  let ?i2 = "\<lparr>t_loop = 10000 :: 32 word, card = Some [0x11, 0x22, 0x33, 0x44 :: byte], t_read = 10001 :: 32 word\<rparr>"
  let ?i3 = "\<lparr>t_loop = 20000 :: 32 word, card = Some [0x11, 0x22, 0x33, 0x44 :: byte], t_read = 20001 :: 32 word\<rparr>"
  have na: "\<not> addMode ctrl0" and room: "cardCount ctrl0 < maxCards"
    by (simp_all add: ctrl0_def maxCards_def)
  have rd1: "card ?i1 = Some [0xD3, 0xEC, 0x2B, 0x28]" by simp
  have m: "encode_uid [0xD3, 0xEC, 0x2B, 0x28] = masterUID" by (simp add: encode_examples)
  have o1: "\<not> t_loop ?i1 - lastReadTime ctrl0 < debounceDelay" by (simp add: ctrl0_def debounceDelay_def)
  have rd2: "card ?i2 = Some [0x11, 0x22, 0x33, 0x44]" by simp
  have o2: "\<not> t_loop ?i2 - t_read ?i1 < debounceDelay" by (simp add: debounceDelay_def)
  have xm: "encode_uid [0x11, 0x22, 0x33, 0x44] \<noteq> masterUID"
    and xr: "encode_uid [0x11, 0x22, 0x33, 0x44] \<noteq> eepromResetUID"
    by (simp_all add: encode_examples masterUID_def eepromResetUID_def)
  have sh: "length (encode_uid [0x11, 0x22, 0x33, 0x44]) \<le> UIDLength"
    by (simp add: encode_examples UIDLength_def)
  have nw: "\<not> checkUID (encode_uid [0x11, 0x22, 0x33, 0x44]) ctrl0" by (simp add: ctrl0_def checkUID_scan)
  have rd3: "card ?i3 = Some [0x11, 0x22, 0x33, 0x44]" by simp
  have o3: "\<not> t_loop ?i3 - t_read ?i2 < debounceDelay" by (simp add: debounceDelay_def)
  show ?thesis
    using na room rd1 m o1 rd2 o2 xm xr sh nw rd3 o3
      enroll_then_grant [OF na room rd1 m o1 rd2 o2 xm xr sh nw rd3 o3]
    by blast
qed


subsection \<open>Special identifiers are never stored\<close>

text \<open>C8: from a power-on with an EEPROM that holds neither the master nor the reset
  identifier below its count, no reachable state stores either of them: the spec's
  rule that the special identifiers are never stored holds, because enrollment
  checks them first and a slot keeps at least their eight characters.\<close>

theorem specials_never_stored:
  "reachable_from e0 s \<Longrightarrow> masterUID \<notin> set (persisted_uids e0) \<Longrightarrow>
   eepromResetUID \<notin> set (persisted_uids e0) \<Longrightarrow> no_special s"
  by (induction rule: reachable_from.induct) (simp_all add: setup_no_special sys_step_no_special)

theorem specials_never_stored_witness:
  "reachable_from (\<lambda>_. 0) (fst (setup_sketch 1 (\<lambda>_. 0))) \<and>
   masterUID \<notin> set (persisted_uids (\<lambda>_. 0)) \<and> eepromResetUID \<notin> set (persisted_uids (\<lambda>_. 0)) \<and>
   no_special (fst (setup_sketch 1 (\<lambda>_. 0)))"
proof -
  have r: "reachable_from (\<lambda>_. 0) (fst (setup_sketch 1 (\<lambda>_. 0)))" by (rule reachable_from.power_on)
  have m: "masterUID \<notin> set (persisted_uids (\<lambda>_. 0))" and x: "eepromResetUID \<notin> set (persisted_uids (\<lambda>_. 0))"
    by (simp_all add: persisted_uids_def)
  show ?thesis using r m x specials_never_stored [OF r m x] by simp
qed

text \<open>C14: persist and reload agree: in every state reachable from a power-on with a
  count byte of at most \<open>maxCards\<close>, what a reboot would load from the EEPROM alone
  (the count from byte 0, then the slots) is the list the running device stores.\<close>

theorem reboot_roundtrip:
  assumes r: "reachable_from e0 (Running c)" and b: "unat (e0 0) \<le> maxCards"
  shows "persisted_uids (ee c) = stored_uids c"
proof -
  have "sys_inv s" if "reachable_from e0 s" for s
    using that by (induction rule: reachable_from.induct) (simp_all add: setup_sketch_inv b sys_step_inv)
  with r have "count_inv c" by fastforce
  then show ?thesis by (intro persisted_stored) (simp_all add: count_inv_def maxCards_def)
qed

theorem reboot_roundtrip_witness:
  "reachable_from (\<lambda>_. 0)
     (Running (fst (seed_loop predefinedUIDs \<lparr>ee = (\<lambda>_. 0), cardCount = 0, addMode = False, lastReadTime = 0\<rparr>))) \<and>
   unat ((\<lambda>_. 0 :: byte) 0) \<le> maxCards \<and>
   persisted_uids (ee (fst (seed_loop predefinedUIDs \<lparr>ee = (\<lambda>_. 0), cardCount = 0, addMode = False, lastReadTime = 0\<rparr>))) =
     stored_uids (fst (seed_loop predefinedUIDs \<lparr>ee = (\<lambda>_. 0), cardCount = 0, addMode = False, lastReadTime = 0\<rparr>))"
proof -
  have "reachable_from (\<lambda>_. 0) (fst (setup_sketch 1 (\<lambda>_. 0)))" by (rule reachable_from.power_on)
  then have r: "reachable_from (\<lambda>_. 0)
     (Running (fst (seed_loop predefinedUIDs \<lparr>ee = (\<lambda>_. 0), cardCount = 0, addMode = False, lastReadTime = 0\<rparr>)))"
    by (simp add: setup_sketch_running)
  have b: "unat ((\<lambda>_. 0 :: byte) 0) \<le> maxCards" by (simp add: maxCards_def)
  show ?thesis using r b reboot_roundtrip [OF r b] by simp
qed

end
